theory Spec2Isabelle
  imports Main
begin

section \<open>Numbers inside template literals\<close>

text \<open>
  The adapter renders numbers into strings in three places: the key
  \<^verbatim>\<open>`${toolIndex}`\<close>, the synthesized id \<^verbatim>\<open>`fallback_${toolIndex}`\<close> and the
  placeholders \<^verbatim>\<open>`[See image ${n} below]`\<close> and \<^verbatim>\<open>`Attachment ${n}:`\<close>. Positions and
  counters are non-negative integers, rendered in decimal without leading zeros.
\<close>

definition digit_char :: "nat \<Rightarrow> char" where
  "digit_char d = ''0123456789'' ! d"

function show_nat :: "nat \<Rightarrow> string" where
  "show_nat n = (if n < 10 then [digit_char n] else show_nat (n div 10) @ [digit_char (n mod 10)])"
  by pat_completeness auto
termination
  by (relation "measure (\<lambda>n. n)") auto

declare show_nat.simps [simp del]

section \<open>Stream reconstructor: the handlers of \<^verbatim>\<open>streamChat\<close>\<close>

text \<open>
  One element of \<^verbatim>\<open>chunk.choices[0].delta.tool_calls\<close>, with the three fields the chunk
  handler reads: \<^verbatim>\<open>tc.index\<close>, \<^verbatim>\<open>tc.id\<close> and \<^verbatim>\<open>tc.function?.name\<close>, each possibly missing.
\<close>

record tool_call_chunk =
  tc_index :: "nat option"
  tc_id :: "string option"
  tc_function_name :: "string option"

text \<open>
  The payload of a \<^verbatim>\<open>tool_calls.function.arguments.delta\<close> event, with the fields the
  handler reads: \<^verbatim>\<open>event.name\<close>, \<^verbatim>\<open>event.index\<close> (possibly missing) and
  \<^verbatim>\<open>event.arguments_delta\<close>.
\<close>

record arguments_delta_event =
  ev_name :: string
  ev_index :: "nat option"
  ev_arguments_delta :: string

text \<open>
  The raw callbacks that touch the identity state or emit text and tool events:
  \<^verbatim>\<open>content.delta\<close>, \<^verbatim>\<open>chunk\<close> (with \<^verbatim>\<open>chunk.choices[0]?.delta?.tool_calls\<close>, possibly
  missing) and \<^verbatim>\<open>tool_calls.function.arguments.delta\<close>. The handlers of \<^verbatim>\<open>error\<close>,
  \<^verbatim>\<open>finalChatCompletion\<close> and \<^verbatim>\<open>end\<close> neither read nor write the identity state; the
  final message they deliver is \<open>mapOaiMessageToMessage\<close> below. A stream is a list of
  raw signals in the order the callbacks run.
\<close>

datatype raw_signal =
    ContentDelta string
  | Chunk "tool_call_chunk list option"
  | ArgumentsDelta arguments_delta_event

text \<open>
  The emitted events: \<^verbatim>\<open>text\<close> (content), \<^verbatim>\<open>tool_use\<close> (toolUseId, toolName) and
  \<^verbatim>\<open>tool_use_input\<close> (toolUseId, toolName, partialInput).
\<close>

datatype model_event =
    TextEvent string
  | ToolUseEvent string string
  | ToolUseInputEvent string string string

text \<open>The four locals of the subscriber function, created fresh for each subscription.\<close>

record stream_state =
  emittedToolCalls :: "string set"
  toolCallIds :: "nat \<rightharpoonup> string"
  toolCallIdsByName :: "string \<rightharpoonup> string"
  nextAutoIndex :: nat

definition initial_state :: stream_state where
  "initial_state =
     \<lparr>emittedToolCalls = {}, toolCallIds = Map.empty, toolCallIdsByName = Map.empty,
      nextAutoIndex = 0\<rparr>"

text \<open>JavaScript truthiness of an optional string: present and not empty.\<close>

fun truthy :: "string option \<Rightarrow> bool" where
  "truthy None = False"
| "truthy (Some s) = (s \<noteq> [])"

text \<open>
  The body of the \<^verbatim>\<open>for\<close> loop of the chunk handler, at array position \<open>i\<close>:
  \<^verbatim>\<open>index = tc.index ?? i\<close>, and an id is recorded under the index and, when the
  fragment names its function, under the name.
\<close>

definition record_tool_call :: "nat \<Rightarrow> tool_call_chunk \<Rightarrow> stream_state \<Rightarrow> stream_state" where
  "record_tool_call i tc st =
     (let index = (case tc_index tc of Some k \<Rightarrow> k | None \<Rightarrow> i) in
      if truthy (tc_id tc) then
        (let st1 = st\<lparr>toolCallIds := (toolCallIds st)(index \<mapsto> the (tc_id tc))\<rparr> in
         if truthy (tc_function_name tc) then
           st1\<lparr>toolCallIdsByName :=
                 (toolCallIdsByName st1)(the (tc_function_name tc) \<mapsto> the (tc_id tc))\<rparr>
         else st1)
      else st)"

fun chunk_loop :: "nat \<Rightarrow> tool_call_chunk list \<Rightarrow> stream_state \<Rightarrow> stream_state" where
  "chunk_loop i [] st = st"
| "chunk_loop i (tc # tcs) st = chunk_loop (i + 1) tcs (record_tool_call i tc st)"

fun on_chunk :: "stream_state \<Rightarrow> tool_call_chunk list option \<Rightarrow> stream_state" where
  "on_chunk st None = st"
| "on_chunk st (Some toolCalls) = chunk_loop 0 toolCalls st"

text \<open>\<^verbatim>\<open>toolIndex = event.index ?? nextAutoIndex\<close>\<close>

definition resolve_index :: "stream_state \<Rightarrow> arguments_delta_event \<Rightarrow> nat" where
  "resolve_index st ev = (case ev_index ev of Some i \<Rightarrow> i | None \<Rightarrow> nextAutoIndex st)"

text \<open>
  \<^verbatim>\<open>toolCallIds.get(toolIndex) ?? toolCallIdsByName.get(toolName) ?? `fallback_${toolIndex}`\<close>
\<close>

definition resolve_id :: "stream_state \<Rightarrow> nat \<Rightarrow> string \<Rightarrow> string" where
  "resolve_id st toolIndex toolName =
     (case toolCallIds st toolIndex of
        Some i \<Rightarrow> i
      | None \<Rightarrow>
          (case toolCallIdsByName st toolName of
             Some i \<Rightarrow> i
           | None \<Rightarrow> ''fallback_'' @ show_nat toolIndex))"

definition on_arguments_delta ::
  "stream_state \<Rightarrow> arguments_delta_event \<Rightarrow> stream_state \<times> model_event list" where
  "on_arguments_delta st ev =
     (let toolName = ev_name ev;
          toolIndex = resolve_index st ev;
          toolKey = show_nat toolIndex;
          toolUseId = resolve_id st toolIndex toolName
      in if toolKey \<notin> emittedToolCalls st then
           (st\<lparr>emittedToolCalls := insert toolKey (emittedToolCalls st),
               nextAutoIndex := toolIndex + 1\<rparr>,
            [ToolUseEvent toolUseId toolName,
             ToolUseInputEvent toolUseId toolName (ev_arguments_delta ev)])
         else
           (st, [ToolUseInputEvent toolUseId toolName (ev_arguments_delta ev)]))"

fun handle :: "stream_state \<Rightarrow> raw_signal \<Rightarrow> stream_state \<times> model_event list" where
  "handle st (ContentDelta d) = (st, [TextEvent d])"
| "handle st (Chunk toolCalls) = (on_chunk st toolCalls, [])"
| "handle st (ArgumentsDelta ev) = on_arguments_delta st ev"

text \<open>
  The resolved position under which a raw signal's events are emitted: the \<open>toolIndex\<close>
  of an argument-delta fragment, nothing for the other signals.
\<close>

fun position_of :: "stream_state \<Rightarrow> raw_signal \<Rightarrow> nat option" where
  "position_of st (ArgumentsDelta ev) = Some (resolve_index st ev)"
| "position_of st _ = None"

text \<open>
  The events a stream of raw signals makes the subscriber emit, in emission order, each
  paired with the resolved position of the fragment that caused it.
\<close>

fun trace :: "stream_state \<Rightarrow> raw_signal list \<Rightarrow> (nat option \<times> model_event) list" where
  "trace st [] = []"
| "trace st (s # ss) =
     map (Pair (position_of st s)) (snd (handle st s)) @ trace (fst (handle st s)) ss"

definition run :: "stream_state \<Rightarrow> raw_signal list \<Rightarrow> model_event list" where
  "run st ss = map snd (trace st ss)"


text \<open>
  The argument-delta fragments of a stream, in arrival order, each paired with the
  position it resolves to.
\<close>

fun fragments :: "stream_state \<Rightarrow> raw_signal list \<Rightarrow> (nat \<times> arguments_delta_event) list" where
  "fragments st [] = []"
| "fragments st (ArgumentsDelta ev # ss) =
     (resolve_index st ev, ev) # fragments (fst (on_arguments_delta st ev)) ss"
| "fragments st (s # ss) = fragments (fst (handle st s)) ss"

text \<open>Selecting from a trace the events of one position.\<close>

fun is_tool_use :: "model_event \<Rightarrow> bool" where
  "is_tool_use (ToolUseEvent _ _) = True"
| "is_tool_use _ = False"

fun inputs_at :: "nat \<Rightarrow> (nat option \<times> model_event) list \<Rightarrow> (string \<times> string \<times> string) list" where
  "inputs_at p [] = []"
| "inputs_at p ((q, ToolUseInputEvent i n a) # xs) =
     (if q = Some p then (i, n, a) # inputs_at p xs else inputs_at p xs)"
| "inputs_at p (_ # xs) = inputs_at p xs"

fun starts_at :: "nat \<Rightarrow> (nat option \<times> model_event) list \<Rightarrow> (string \<times> string) list" where
  "starts_at p [] = []"
| "starts_at p ((q, ToolUseEvent i n) # xs) =
     (if q = Some p then (i, n) # starts_at p xs else starts_at p xs)"
| "starts_at p (_ # xs) = starts_at p xs"



section \<open>Messages, content blocks and the wire format\<close>

datatype role = User | Assistant

text \<open>
  The source of an image block, as the mappers read it: \<^verbatim>\<open>source.type\<close> is
  \<^verbatim>\<open>"base64"\<close> (with \<^verbatim>\<open>mediaType\<close> and \<^verbatim>\<open>data\<close>) or a URL (with \<^verbatim>\<open>mediaType\<close> and
  \<^verbatim>\<open>url\<close>).
\<close>

datatype image_source =
    Base64Source (src_mediaType: string) (src_data: string)
  | UrlSource (src_mediaType: string) (src_url: string)

text \<open>The sub-blocks of a tool result: text or image.\<close>

datatype tool_result_block =
    ResultText string
  | ResultImage image_source

text \<open>
  The content blocks of a message; \<open>'j\<close> is the type of a tool call's structured input.
  \<open>ToolUseBlock toolUseId name input\<close>, \<open>ToolResultBlock toolUseId content\<close>,
  \<open>FileAttachmentBlock fileId mimeType\<close>. The guard \<^verbatim>\<open>isFileAttachment\<close> of the
  source is the test for the last constructor.
\<close>

datatype 'j content_block =
    TextBlock string
  | ImageBlock image_source
  | ToolUseBlock string string 'j
  | ToolResultBlock string "tool_result_block list"
  | FileAttachmentBlock string string

record 'j message =
  msg_role :: role
  msg_content :: "'j content_block list"

text \<open>
  Modelled from the spec: the declaration of \<^verbatim>\<open>FileAttachmentCacheMap\<close> is not among the
  sources. The spec describes the cache as a mapping from file id to an entry with a
  cache path and a signed URL, and the formatter reads it by property access,
  \<^verbatim>\<open>fileAttachmentCacheMap?.[c.fileId]\<close>. The map is therefore a plain object: its own
  properties are the entries, and a name that is not an own property is still found
  when it is one of the members every object inherits from \<^verbatim>\<open>Object.prototype\<close>.
\<close>

record file_attachment_cache =
  cachePath :: string
  signedUrl :: string

type_synonym file_attachment_cache_map = "string \<rightharpoonup> file_attachment_cache"

definition Object_prototype_names :: "string list" where
  "Object_prototype_names =
     [''constructor'', ''__defineGetter__'', ''__defineSetter__'', ''hasOwnProperty'',
      ''__lookupGetter__'', ''__lookupSetter__'', ''isPrototypeOf'', ''propertyIsEnumerable'',
      ''toString'', ''valueOf'', ''__proto__'', ''toLocaleString'']"

text \<open>
  What a property access on the map yields when it is not undefined: an entry, or an
  inherited member (a function, or the prototype itself for \<^verbatim>\<open>__proto__\<close>). An inherited
  member is truthy and has neither a \<^verbatim>\<open>cachePath\<close> nor a \<^verbatim>\<open>signedUrl\<close>.
\<close>

datatype property_value =
    OwnEntry file_attachment_cache
  | InheritedMember

fun read_cachePath :: "property_value \<Rightarrow> string option" where
  "read_cachePath (OwnEntry e) = Some (cachePath e)"
| "read_cachePath InheritedMember = None"

fun read_signedUrl :: "property_value \<Rightarrow> string option" where
  "read_signedUrl (OwnEntry e) = Some (signedUrl e)"
| "read_signedUrl InheritedMember = None"

text \<open>A string, or undefined, inside a template literal.\<close>

fun template :: "string option \<Rightarrow> string" where
  "template (Some t) = t"
| "template None = ''undefined''"

text \<open>
  Wire content parts: \<open>TextPart text\<close> and \<open>ImageUrlPart url detail\<close>. The url is the
  value of a property read and may be undefined (\<open>None\<close>).
\<close>

datatype content_part =
    TextPart string
  | ImageUrlPart "string option" string

text \<open>
  Wire tool calls: \<open>FunctionToolCall id name arguments\<close> for \<^verbatim>\<open>type: "function"\<close>,
  \<open>CustomToolCall id name input\<close> for the other kind.
\<close>

datatype tool_call =
    FunctionToolCall string string string
  | CustomToolCall string string string

text \<open>
  Wire messages of the request: \<open>ToolMessageParam content tool_call_id\<close> has role
  \<^verbatim>\<open>"tool"\<close>; \<open>RoleMessageParam role content tool_calls\<close> carries the role of the
  internal message, and its \<^verbatim>\<open>tool_calls\<close> key may be missing.
\<close>

datatype oai_message_param =
    ToolMessageParam string string
  | RoleMessageParam role "content_part list" "tool_call list option"

text \<open>The formatter returns one message or an array of messages.\<close>

datatype 'a one_or_many = One 'a | Many "'a list"

definition SUPPORTED_IMAGE_TYPES :: "string list" where
  "SUPPORTED_IMAGE_TYPES = [''image/jpeg'', ''image/png'', ''image/gif'', ''image/webp'']"

definition isSupportedImageType :: "string \<Rightarrow> bool" where
  "isSupportedImageType t = (t \<in> set SUPPORTED_IMAGE_TYPES)"

definition mapImageBlockToOpenAI :: "image_source \<Rightarrow> content_part" where
  "mapImageBlockToOpenAI source =
     (if isSupportedImageType (src_mediaType source) then
        (case source of
           Base64Source mt d \<Rightarrow> ImageUrlPart (Some (''data:'' @ mt @ '';base64,'' @ d)) ''high''
         | UrlSource mt u \<Rightarrow> ImageUrlPart (Some u) ''high'')
      else TextPart (''[Unsupported image type: '' @ src_mediaType source @ '']''))"

text \<open>\<^verbatim>\<open>Array.prototype.join\<close> on strings.\<close>

fun join :: "string \<Rightarrow> string list \<Rightarrow> string" where
  "join sep [] = []"
| "join sep [x] = x"
| "join sep (x # y # ys) = x @ sep @ join sep (y # ys)"

text \<open>
  The loop over the sub-blocks of one tool result. The state is the counter
  \<open>toolResultImageIndex\<close> (shared by all tool results of the message) and the two
  arrays \<open>toolResultParts\<close> and \<open>imageParts\<close>.
\<close>

fun scan_tool_result ::
  "tool_result_block list \<Rightarrow> nat \<Rightarrow> string list \<Rightarrow> content_part list \<Rightarrow>
   nat \<times> string list \<times> content_part list" where
  "scan_tool_result [] idx toolResultParts imageParts = (idx, toolResultParts, imageParts)"
| "scan_tool_result (ResultText t # bs) idx toolResultParts imageParts =
     scan_tool_result bs idx (toolResultParts @ [t]) imageParts"
| "scan_tool_result (ResultImage source # bs) idx toolResultParts imageParts =
     (case mapImageBlockToOpenAI source of
        ImageUrlPart u d \<Rightarrow>
          scan_tool_result bs (idx + 1)
            (toolResultParts @ [''[See image '' @ show_nat (idx + 1) @ '' below]''])
            (imageParts @ [ImageUrlPart u d])
      | TextPart t \<Rightarrow> scan_tool_result bs (idx + 1) (toolResultParts @ [t]) imageParts)"

text \<open>The mutable locals of the user branch.\<close>

record user_scan =
  attachmentIndex :: nat
  toolResultImageIndex :: nat
  toolMessages :: "oai_message_param list"

text \<open>What the callback of \<^verbatim>\<open>message.content.map\<close> returns: null, one part or an array.\<close>

datatype mapped = Null | Single content_part | Multiple "content_part list"

text \<open>
  \<^verbatim>\<open>fileAttachmentCacheMap?.[c.fileId]\<close>: undefined (\<open>None\<close>) when the map is missing or
  the name is neither an own property nor an inherited one.
\<close>

definition cache_lookup ::
  "file_attachment_cache_map option \<Rightarrow> string \<Rightarrow> property_value option" where
  "cache_lookup fileAttachmentCacheMap fileId =
     (case fileAttachmentCacheMap of
        None \<Rightarrow> None
      | Some m \<Rightarrow>
          (case m fileId of
             Some e \<Rightarrow> Some (OwnEntry e)
           | None \<Rightarrow>
               if fileId \<in> set Object_prototype_names then Some InheritedMember else None))"

fun map_user_block ::
  "file_attachment_cache_map option \<Rightarrow> 'j content_block \<Rightarrow> user_scan \<Rightarrow> mapped \<times> user_scan" where
  "map_user_block fcm (TextBlock t) st = (Single (TextPart t), st)"
| "map_user_block fcm (ToolResultBlock toolUseId content) st =
     (case scan_tool_result content (toolResultImageIndex st) [] [] of
        (idx, toolResultParts, imageParts) \<Rightarrow>
          (Multiple imageParts,
           st\<lparr>toolResultImageIndex := idx,
              toolMessages := toolMessages st @
                [ToolMessageParam (join [CHR 0x0A] toolResultParts) toolUseId]\<rparr>))"
| "map_user_block fcm (ImageBlock source) st = (Single (mapImageBlockToOpenAI source), st)"
| "map_user_block fcm (FileAttachmentBlock fileId mimeType) st =
     (case cache_lookup fcm fileId of
        None \<Rightarrow> (Null, st)
      | Some cache \<Rightarrow>
          (let n = attachmentIndex st + 1;
               textBlock = TextPart (''Attachment '' @ show_nat n @ '':'' @ [CHR 0x0A] @
                                    ''MIME type: '' @ mimeType @ [CHR 0x0A] @
                                    ''Cached at: '' @ template (read_cachePath cache))
           in (if isSupportedImageType mimeType
               then Multiple [textBlock, ImageUrlPart (read_signedUrl cache) ''high'']
               else Single textBlock,
               st\<lparr>attachmentIndex := n\<rparr>)))"
| "map_user_block fcm (ToolUseBlock toolUseId name input) st = (Null, st)"

text \<open>\<^verbatim>\<open>message.content.map(...)\<close>: the callback runs on the blocks in order.\<close>

fun map_user_content ::
  "file_attachment_cache_map option \<Rightarrow> 'j content_block list \<Rightarrow> user_scan \<Rightarrow>
   mapped list \<times> user_scan" where
  "map_user_content fcm [] st = ([], st)"
| "map_user_content fcm (c # cs) st =
     (case map_user_block fcm c st of
        (m, st1) \<Rightarrow>
          (case map_user_content fcm cs st1 of (ms, st2) \<Rightarrow> (m # ms, st2)))"

text \<open>\<^verbatim>\<open>.flat()\<close> on the array that \<^verbatim>\<open>.filter((c) => c !== null)\<close> has left.\<close>

fun flat :: "mapped list \<Rightarrow> content_part list" where
  "flat [] = []"
| "flat (Null # ms) = flat ms"
| "flat (Single p # ms) = p # flat ms"
| "flat (Multiple ps # ms) = ps @ flat ms"

fun assistant_text_part :: "'j content_block \<Rightarrow> content_part option" where
  "assistant_text_part (TextBlock t) = Some (TextPart t)"
| "assistant_text_part _ = None"

text \<open>
  \<^verbatim>\<open>message.content.filter((c) => c.type === "tool_use")\<close> followed by the map to wire
  tool calls; \<open>JSON_stringify\<close> stands for the runtime's \<^verbatim>\<open>JSON.stringify\<close>.
\<close>

fun assistant_tool_call :: "('j \<Rightarrow> string) \<Rightarrow> 'j content_block \<Rightarrow> tool_call option" where
  "assistant_tool_call JSON_stringify (ToolUseBlock toolUseId name input) =
     Some (FunctionToolCall toolUseId name (JSON_stringify input))"
| "assistant_tool_call JSON_stringify _ = None"

definition formatInputMessage ::
  "('j \<Rightarrow> string) \<Rightarrow> 'j message \<Rightarrow> file_attachment_cache_map option \<Rightarrow>
   oai_message_param one_or_many" where
  "formatInputMessage JSON_stringify message fileAttachmentCacheMap =
     (if msg_role message = User then
        (case map_user_content fileAttachmentCacheMap (msg_content message)
                \<lparr>attachmentIndex = 0, toolResultImageIndex = 0, toolMessages = []\<rparr> of
           (ms, st) \<Rightarrow>
             (let content = flat (filter (\<lambda>c. c \<noteq> Null) ms);
                  messages = (if length (toolMessages st) > 0 then toolMessages st else []);
                  messages = (if length content > 0
                              then messages @ [RoleMessageParam (msg_role message) content None]
                              else messages)
              in Many messages))
      else
        (let toolCalls = List.map_filter (assistant_tool_call JSON_stringify) (msg_content message)
         in One (RoleMessageParam (msg_role message)
                   (List.map_filter assistant_text_part (msg_content message))
                   (if length toolCalls > 0 then Some toolCalls else None))))"

section \<open>Response and usage mappers\<close>

text \<open>The provider's terminal message: role, optional text, optional tool calls.\<close>

record oai_completion_message =
  cm_role :: role
  cm_content :: "string option"
  cm_tool_calls :: "tool_call list option"

record prompt_tokens_details =
  cached_tokens :: "int option"

record completion_tokens_details =
  reasoning_tokens :: "int option"

record completion_usage =
  prompt_tokens :: int
  completion_tokens :: int
  total_tokens :: int
  prompt_details :: "prompt_tokens_details option"
  completion_details :: "completion_tokens_details option"

record input_usage =
  input_total :: int
  cacheRead :: "int option"

record output_usage =
  output_total :: int
  thinking :: "int option"

record token_usage =
  usage_input :: input_usage
  usage_output :: output_usage
  usage_total :: int

datatype stop_reason = StopToolUse | StopEndTurn

text \<open>
  The final message. Its \<^verbatim>\<open>timestamp\<close> (the wall clock at mapping time) is left out.
\<close>

record 'j final_message =
  fm_role :: role
  fm_content :: "'j content_block list"
  fm_stop_reason :: stop_reason
  fm_usage :: "token_usage option"

definition mapOaiUsage :: "completion_usage \<Rightarrow> token_usage" where
  "mapOaiUsage usage =
     \<lparr>usage_input =
        \<lparr>input_total = prompt_tokens usage,
         cacheRead = (case prompt_details usage of None \<Rightarrow> None | Some d \<Rightarrow> cached_tokens d)\<rparr>,
      usage_output =
        \<lparr>output_total = completion_tokens usage,
         thinking =
           (case completion_details usage of None \<Rightarrow> None | Some d \<Rightarrow> reasoning_tokens d)\<rparr>,
      usage_total = total_tokens usage\<rparr>"

text \<open>\<^verbatim>\<open>.filter((c) => c.type === "function")\<close>, keeping id, name and arguments.\<close>

fun function_call :: "tool_call \<Rightarrow> (string \<times> string \<times> string) option" where
  "function_call (FunctionToolCall i n a) = Some (i, n, a)"
| "function_call (CustomToolCall _ _ _) = None"

text \<open>
  The \<^verbatim>\<open>.map\<close> to \<^verbatim>\<open>tool_use\<close> blocks. \<open>JSON_parse\<close> stands for the runtime's
  \<^verbatim>\<open>JSON.parse\<close>, which returns a value or throws; the first throw ends the map.
\<close>

fun to_tool_use_blocks ::
  "(string \<Rightarrow> 'e + 'j) \<Rightarrow> (string \<times> string \<times> string) list \<Rightarrow> 'e + 'j content_block list" where
  "to_tool_use_blocks JSON_parse [] = Inr []"
| "to_tool_use_blocks JSON_parse ((i, n, a) # cs) =
     (case JSON_parse a of
        Inl e \<Rightarrow> Inl e
      | Inr input \<Rightarrow>
          (case to_tool_use_blocks JSON_parse cs of
             Inl e \<Rightarrow> Inl e
           | Inr bs \<Rightarrow> Inr (ToolUseBlock i n input # bs)))"

definition mapOaiMessageToMessage ::
  "(string \<Rightarrow> 'e + 'j) \<Rightarrow> oai_completion_message \<Rightarrow> completion_usage option \<Rightarrow>
   'e + 'j final_message" where
  "mapOaiMessageToMessage JSON_parse message usage =
     (case (case cm_tool_calls message of
              None \<Rightarrow> Inr []
            | Some cs \<Rightarrow> to_tool_use_blocks JSON_parse (List.map_filter function_call cs)) of
        Inl e \<Rightarrow> Inl e
      | Inr blocks \<Rightarrow>
          Inr \<lparr>fm_role = cm_role message,
               fm_content =
                 TextBlock (case cm_content message of None \<Rightarrow> [] | Some t \<Rightarrow> t) # blocks,
               fm_stop_reason =
                 (case cm_tool_calls message of
                    None \<Rightarrow> StopEndTurn
                  | Some cs \<Rightarrow> if length cs \<noteq> 0 then StopToolUse else StopEndTurn),
               fm_usage = map_option mapOaiUsage usage\<rparr>)"

text \<open>Reading the wire messages back: role, id and tool calls.\<close>

fun is_tool_message :: "oai_message_param \<Rightarrow> bool" where
  "is_tool_message (ToolMessageParam _ _) = True"
| "is_tool_message _ = False"

fun tool_call_id :: "oai_message_param \<Rightarrow> string option" where
  "tool_call_id (ToolMessageParam _ i) = Some i"
| "tool_call_id _ = None"

fun tool_result_ids :: "'j content_block list \<Rightarrow> string list" where
  "tool_result_ids [] = []"
| "tool_result_ids (ToolResultBlock i _ # cs) = i # tool_result_ids cs"
| "tool_result_ids (_ # cs) = tool_result_ids cs"

fun is_tool_use_block :: "'j content_block \<Rightarrow> bool" where
  "is_tool_use_block (ToolUseBlock _ _ _) = True"
| "is_tool_use_block _ = False"

fun wire_tool_calls :: "oai_message_param one_or_many \<Rightarrow> tool_call list option" where
  "wire_tool_calls (One (RoleMessageParam _ _ tcs)) = tcs"
| "wire_tool_calls _ = None"

text \<open>
  Whether the runtime's \<^verbatim>\<open>JSON.parse\<close> gives back the input of a \<^verbatim>\<open>tool_use\<close> block from
  what \<^verbatim>\<open>JSON.stringify\<close> made of it (the structural equality of the round trip).
\<close>

fun round_trips :: "(string \<Rightarrow> 'e + 'j) \<Rightarrow> ('j \<Rightarrow> string) \<Rightarrow> 'j content_block \<Rightarrow> bool" where
  "round_trips JSON_parse JSON_stringify (ToolUseBlock i n input) =
     (JSON_parse (JSON_stringify input) = Inr input)"
| "round_trips JSON_parse JSON_stringify _ = True"

text \<open>
  The relation between a \<^verbatim>\<open>tool_use\<close> block and what the round trip makes of it: the
  same id and name, and as input what \<^verbatim>\<open>JSON.parse\<close> returns on the
  \<^verbatim>\<open>JSON.stringify\<close> of the original input.
\<close>

fun reparsed ::
  "(string \<Rightarrow> 'e + 'j) \<Rightarrow> ('j \<Rightarrow> string) \<Rightarrow> 'j content_block \<Rightarrow> 'j content_block \<Rightarrow> bool" where
  "reparsed JSON_parse JSON_stringify (ToolUseBlock i n input) (ToolUseBlock i' n' input') =
     (i' = i \<and> n' = n \<and> JSON_parse (JSON_stringify input) = Inr input')"
| "reparsed JSON_parse JSON_stringify _ _ = False"

section \<open>The JSON built-ins on a fragment of values\<close>

text \<open>
  The formatter and the mapper take the runtime's \<^verbatim>\<open>JSON.stringify\<close> and \<^verbatim>\<open>JSON.parse\<close>
  as parameters, and the theorems about them hold for every such pair. To run the
  mappers on concrete inputs, this section gives the two built-ins on a fragment:
  the values built from null, booleans, integers, the number NaN, strings of code
  units below 256, arrays and objects whose member names are not array indices; and
  the texts over these with the escapes of the JSON grammar. Fractions, exponents,
  integers that a double does not hold exactly and code units from 256 on are outside
  the fragment: there the functions below are not the runtime's, and nothing below
  evaluates them there.
\<close>

datatype js_value =
    JNull
  | JBool bool
  | JNumber int
  | JNaN
  | JString string
  | JArray "js_value list"
  | JObject "(string \<times> js_value) list"

datatype json_error = SyntaxError

definition show_int :: "int \<Rightarrow> string" where
  "show_int k = (if k < 0 then CHR ''-'' # show_nat (nat (- k)) else show_nat (nat k))"

definition hex_digit :: "nat \<Rightarrow> char" where
  "hex_digit d = ''0123456789abcdef'' ! d"

text \<open>
  \<^verbatim>\<open>JSON.stringify\<close> on strings: the quote, the backslash and the control characters are
  escaped, the latter by their short form or by a backslash, \<^verbatim>\<open>u00\<close> and two
  hexadecimal digits.
\<close>

definition escape_char :: "char \<Rightarrow> string" where
  "escape_char c =
     (if c = CHR 0x22 then [CHR 0x5C, CHR 0x22]
      else if c = CHR 0x5C then [CHR 0x5C, CHR 0x5C]
      else if c = CHR 0x08 then [CHR 0x5C, CHR ''b'']
      else if c = CHR 0x09 then [CHR 0x5C, CHR ''t'']
      else if c = CHR 0x0A then [CHR 0x5C, CHR ''n'']
      else if c = CHR 0x0C then [CHR 0x5C, CHR ''f'']
      else if c = CHR 0x0D then [CHR 0x5C, CHR ''r'']
      else if (of_char c :: nat) < 32 then
        [CHR 0x5C, CHR ''u'', CHR ''0'', CHR ''0'',
         hex_digit (of_char c div 16), hex_digit (of_char c mod 16)]
      else [c])"

definition quote :: "string \<Rightarrow> string" where
  "quote s = CHR 0x22 # concat (map escape_char s) @ [CHR 0x22]"

text \<open>
  \<^verbatim>\<open>JSON.stringify\<close> without indentation. NaN is written as \<^verbatim>\<open>null\<close>, which is where the
  text no longer determines the value.
\<close>

fun json_stringify :: "js_value \<Rightarrow> string" where
  "json_stringify JNull = ''null''"
| "json_stringify (JBool b) = (if b then ''true'' else ''false'')"
| "json_stringify (JNumber k) = show_int k"
| "json_stringify JNaN = ''null''"
| "json_stringify (JString s) = quote s"
| "json_stringify (JArray xs) = ''['' @ join '','' (map json_stringify xs) @ '']''"
| "json_stringify (JObject kvs) =
     ''{'' @ join '','' (map (\<lambda>(k, v). quote k @ '':'' @ json_stringify v) kvs) @ ''}''"

definition is_ws :: "char \<Rightarrow> bool" where
  "is_ws c = (c = CHR '' '' \<or> c = CHR 0x0A \<or> c = CHR 0x0D \<or> c = CHR 0x09)"

definition skip_ws :: "string \<Rightarrow> string" where
  "skip_ws s = dropWhile is_ws s"

definition is_digit :: "char \<Rightarrow> bool" where
  "is_digit c = (c \<in> set ''0123456789'')"

definition digit_value :: "char \<Rightarrow> nat" where
  "digit_value c = of_char c - 48"

definition hex_value :: "char \<Rightarrow> nat option" where
  "hex_value c =
     (if is_digit c then Some (of_char c - 48)
      else if c \<in> set ''abcdef'' then Some (of_char c - 87)
      else if c \<in> set ''ABCDEF'' then Some (of_char c - 55)
      else None)"

text \<open>The four hexadecimal digits of a code unit escape.\<close>

fun hex4 :: "string \<Rightarrow> nat option" where
  "hex4 (a # b # c # d # _) =
     (case (hex_value a, hex_value b, hex_value c, hex_value d) of
        (Some x, Some y, Some z, Some w) \<Rightarrow> Some (((x * 16 + y) * 16 + z) * 16 + w)
      | _ \<Rightarrow> None)"
| "hex4 _ = None"

text \<open>
  The characters of a string after its opening quote, up to the closing quote. A raw
  control character is an error; the escapes are those of the JSON grammar.
\<close>

fun parse_string :: "string \<Rightarrow> string \<Rightarrow> (string \<times> string) option" where
  "parse_string acc [] = None"
| "parse_string acc (c # cs) =
     (if c = CHR 0x22 then Some (acc, cs)
      else if (of_char c :: nat) < 32 then None
      else if c = CHR 0x5C then
        (case cs of
           [] \<Rightarrow> None
         | d # ds \<Rightarrow>
             if d = CHR 0x22 \<or> d = CHR 0x5C \<or> d = CHR ''/'' then parse_string (acc @ [d]) ds
             else if d = CHR ''b'' then parse_string (acc @ [CHR 0x08]) ds
             else if d = CHR ''t'' then parse_string (acc @ [CHR 0x09]) ds
             else if d = CHR ''n'' then parse_string (acc @ [CHR 0x0A]) ds
             else if d = CHR ''f'' then parse_string (acc @ [CHR 0x0C]) ds
             else if d = CHR ''r'' then parse_string (acc @ [CHR 0x0D]) ds
             else if d = CHR ''u'' then
               (case hex4 ds of
                  None \<Rightarrow> None
                | Some n \<Rightarrow> if n < 256 then parse_string (acc @ [char_of n]) (drop 4 ds) else None)
             else None)
      else parse_string (acc @ [c]) cs)"

definition parse_digits :: "string \<Rightarrow> (nat \<times> string) option" where
  "parse_digits s =
     (let ds = takeWhile is_digit s in
      if ds = [] \<or> (length ds > 1 \<and> hd ds = CHR ''0'') then None
      else Some (foldl (\<lambda>a c. 10 * a + digit_value c) 0 ds, dropWhile is_digit s))"

definition parse_number :: "string \<Rightarrow> (js_value \<times> string) option" where
  "parse_number s =
     (case s of
        [] \<Rightarrow> None
      | c # cs \<Rightarrow>
          if c = CHR ''-'' then map_option (\<lambda>(n, r). (JNumber (- int n), r)) (parse_digits cs)
          else map_option (\<lambda>(n, r). (JNumber (int n), r)) (parse_digits s))"

definition parse_literal :: "string \<Rightarrow> js_value \<Rightarrow> string \<Rightarrow> (js_value \<times> string) option" where
  "parse_literal w v s = (if take (length w) s = w then Some (v, drop (length w) s) else None)"

text \<open>A member whose name occurs again replaces the value of the earlier one.\<close>

fun set_member ::
  "string \<Rightarrow> js_value \<Rightarrow> (string \<times> js_value) list \<Rightarrow> (string \<times> js_value) list" where
  "set_member k v [] = [(k, v)]"
| "set_member k v ((k', v') # kvs) =
     (if k' = k then (k, v) # kvs else (k', v') # set_member k v kvs)"

text \<open>
  Recursive descent. The first argument bounds the depth of the recursion;
  \<open>json_parse\<close> starts it above the length of the text, and every nested value uses up
  one character at least.
\<close>

fun parse_value :: "nat \<Rightarrow> string \<Rightarrow> (js_value \<times> string) option"
  and parse_elements :: "nat \<Rightarrow> js_value list \<Rightarrow> string \<Rightarrow> (js_value \<times> string) option"
  and parse_members ::
    "nat \<Rightarrow> (string \<times> js_value) list \<Rightarrow> string \<Rightarrow> (js_value \<times> string) option" where
  "parse_value 0 s = None"
| "parse_value (Suc fuel) s =
     (case skip_ws s of
        [] \<Rightarrow> None
      | c # cs \<Rightarrow>
          if c = CHR ''n'' then parse_literal ''null'' JNull (c # cs)
          else if c = CHR ''t'' then parse_literal ''true'' (JBool True) (c # cs)
          else if c = CHR ''f'' then parse_literal ''false'' (JBool False) (c # cs)
          else if c = CHR 0x22 then map_option (\<lambda>(t, r). (JString t, r)) (parse_string [] cs)
          else if c = CHR ''['' then
            (case skip_ws cs of
               [] \<Rightarrow> None
             | d # ds \<Rightarrow> if d = CHR '']'' then Some (JArray [], ds)
                         else parse_elements fuel [] (d # ds))
          else if c = CHR ''{'' then
            (case skip_ws cs of
               [] \<Rightarrow> None
             | d # ds \<Rightarrow> if d = CHR ''}'' then Some (JObject [], ds)
                         else parse_members fuel [] (d # ds))
          else parse_number (c # cs))"
| "parse_elements 0 acc s = None"
| "parse_elements (Suc fuel) acc s =
     (case parse_value fuel s of
        None \<Rightarrow> None
      | Some (v, r) \<Rightarrow>
          (case skip_ws r of
             [] \<Rightarrow> None
           | c # cs \<Rightarrow>
               if c = CHR '']'' then Some (JArray (acc @ [v]), cs)
               else if c = CHR '','' then parse_elements fuel (acc @ [v]) cs
               else None))"
| "parse_members 0 acc s = None"
| "parse_members (Suc fuel) acc s =
     (case skip_ws s of
        [] \<Rightarrow> None
      | q # qs \<Rightarrow>
          if q \<noteq> CHR 0x22 then None
          else
            (case parse_string [] qs of
               None \<Rightarrow> None
             | Some (k, r) \<Rightarrow>
                 (case skip_ws r of
                    [] \<Rightarrow> None
                  | c # cs \<Rightarrow>
                      if c \<noteq> CHR '':'' then None
                      else
                        (case parse_value fuel cs of
                           None \<Rightarrow> None
                         | Some (v, r2) \<Rightarrow>
                             (case skip_ws r2 of
                                [] \<Rightarrow> None
                              | e # es \<Rightarrow>
                                  if e = CHR ''}'' then Some (JObject (set_member k v acc), es)
                                  else if e = CHR '','' then
                                    parse_members fuel (set_member k v acc) es
                                  else None)))))"

definition json_parse :: "string \<Rightarrow> json_error + js_value" where
  "json_parse s =
     (case parse_value (Suc (length s)) s of
        None \<Rightarrow> Inl SyntaxError
      | Some (v, r) \<Rightarrow> if skip_ws r = [] then Inr v else Inl SyntaxError)"

text \<open>
  The values of the fragment: no NaN, integers that a double holds exactly, and objects
  whose member names are distinct and are not array indices (the runtime lists those
  first, whatever the order they were written in).
\<close>

definition is_array_index :: "string \<Rightarrow> bool" where
  "is_array_index k = (k \<noteq> [] \<and> list_all is_digit k \<and> (length k = 1 \<or> hd k \<noteq> CHR ''0''))"

fun in_fragment :: "js_value \<Rightarrow> bool" where
  "in_fragment JNull = True"
| "in_fragment (JBool b) = True"
| "in_fragment (JNumber k) = (\<bar>k\<bar> \<le> 2 ^ 53)"
| "in_fragment JNaN = False"
| "in_fragment (JString s) = True"
| "in_fragment (JArray xs) = list_all in_fragment xs"
| "in_fragment (JObject kvs) =
     (distinct (map fst kvs) \<and> list_all (\<lambda>(k, v). \<not> is_array_index k \<and> in_fragment v) kvs)"

fun fragment_input :: "js_value content_block \<Rightarrow> bool" where
  "fragment_input (ToolUseBlock i n input) = in_fragment input"
| "fragment_input _ = True"

text \<open>
  For the proof that the text of a value is parsed back to it: the text that may follow
  a value, the characters a value may start with, and the text of one object member.
\<close>

definition terminated :: "string \<Rightarrow> bool" where
  "terminated rest =
     (case rest of [] \<Rightarrow> True | c # _ \<Rightarrow> c = CHR '','' \<or> c = CHR '']'' \<or> c = CHR ''}'')"

definition value_start :: "char \<Rightarrow> bool" where
  "value_start c =
     (\<not> is_ws c \<and> c \<noteq> CHR '']'' \<and> c \<noteq> CHR ''}'' \<and> c \<noteq> CHR '','' \<and> c \<noteq> CHR '':'')"

definition member_text :: "string \<times> js_value \<Rightarrow> string" where
  "member_text kv = quote (fst kv) @ '':'' @ json_stringify (snd kv)"

section \<open>Example inputs\<close>

text \<open>
  One call \<open>f\<close> at index 0: a chunk that carries the call's id, then two argument
  fragments; between the fragments, a chunk that carries the id of another call \<open>g\<close>
  at index 1.
\<close>

definition id_chunk :: "raw_signal list" where
  "id_chunk =
     [Chunk (Some [\<lparr>tc_index = Some 0, tc_id = Some ''call_1'', tc_function_name = Some ''f''\<rparr>])]"

definition two_fragments :: "raw_signal list" where
  "two_fragments =
     [ArgumentsDelta \<lparr>ev_name = ''f'', ev_index = Some 0, ev_arguments_delta = ''{''\<rparr>,
      Chunk (Some [\<lparr>tc_index = Some 1, tc_id = Some ''call_2'', tc_function_name = Some ''g''\<rparr>]),
      ArgumentsDelta \<lparr>ev_name = ''f'', ev_index = Some 0, ev_arguments_delta = ''}''\<rparr>]"

text \<open>
  A cache with one entry, two structured inputs, an assistant message with two
  \<^verbatim>\<open>tool_use\<close> blocks, and three terminal completions: one function call with valid
  arguments, one with malformed arguments, and one call of the other kind.
\<close>

definition example_entries :: file_attachment_cache_map where
  "example_entries =
     [''file_1'' \<mapsto> \<lparr>cachePath = ''/cache/file_1'', signedUrl = ''https://files/1''\<rparr>]"

definition example_cache :: "file_attachment_cache_map option" where
  "example_cache = Some example_entries"

definition example_input_1 :: js_value where
  "example_input_1 = JObject [(''city'', JString ''Paris''), (''days'', JNumber 3)]"

definition example_input_2 :: js_value where
  "example_input_2 = JArray [JNumber (- 1), JBool True, JNull]"

definition example_assistant_content :: "js_value content_block list" where
  "example_assistant_content =
     [TextBlock ''calling'',
      ToolUseBlock ''call_a'' ''weather'' example_input_1,
      ToolUseBlock ''call_b'' ''pick'' example_input_2]"

definition function_completion :: oai_completion_message where
  "function_completion =
     \<lparr>cm_role = Assistant, cm_content = None,
      cm_tool_calls = Some [FunctionToolCall ''call_a'' ''weather'' ''{}'']\<rparr>"

definition malformed_completion :: oai_completion_message where
  "malformed_completion =
     \<lparr>cm_role = Assistant, cm_content = Some ''ok'',
      cm_tool_calls = Some [CustomToolCall ''call_c'' ''shell'' ''ls'',
                            FunctionToolCall ''call_a'' ''weather'' ''{bad'']\<rparr>"

definition custom_completion :: oai_completion_message where
  "custom_completion =
     \<lparr>cm_role = Assistant, cm_content = Some ''ok'',
      cm_tool_calls = Some [CustomToolCall ''call_c'' ''shell'' ''ls'']\<rparr>"

section \<open>Properties of the stream reconstructor\<close>

lemma digit_char_value: "d < 10 \<Longrightarrow> of_char (digit_char d) = d + (48::nat)"
proof -
  assume "d < 10"
  then have "d \<in> {0,1,2,3,4,5,6,7,8,9}" by auto
  then show ?thesis by (auto simp: digit_char_def)
qed

lemma digit_char_inj:
  assumes "a < 10" and "b < 10" and "digit_char a = digit_char b"
  shows "a = b"
proof -
  from assms(3) have "(of_char (digit_char a) :: nat) = of_char (digit_char b)"
    by (rule arg_cong)
  then have "a + 48 = b + 48"
    by (simp only: digit_char_value[OF assms(1)] digit_char_value[OF assms(2)])
  then show ?thesis by simp
qed

lemma show_nat_nonempty: "show_nat n \<noteq> []"
  by (subst show_nat.simps) simp

lemma show_nat_inj: "show_nat n = show_nat m \<Longrightarrow> n = m"
proof (induction n arbitrary: m rule: show_nat.induct)
  case (1 n)
  show ?case
  proof (cases "n < 10")
    case True
    show ?thesis
    proof (cases "m < 10")
      case mlt: True
      from 1(2) True mlt have "digit_char n = digit_char m"
        by (simp add: show_nat.simps)
      with True mlt show ?thesis using digit_char_inj by blast
    next
      case False
      from 1(2) True False have "[digit_char n] = show_nat (m div 10) @ [digit_char (m mod 10)]"
        by (simp add: show_nat.simps[of n] show_nat.simps[of m])
      then show ?thesis using show_nat_nonempty[of "m div 10"] by simp
    qed
  next
    case False
    show ?thesis
    proof (cases "m < 10")
      case True
      from 1(2) True False have "show_nat (n div 10) @ [digit_char (n mod 10)] = [digit_char m]"
        by (simp add: show_nat.simps[of n] show_nat.simps[of m])
      then show ?thesis using show_nat_nonempty[of "n div 10"] by simp
    next
      case mge: False
      from 1(2) False mge have e: "show_nat (n div 10) @ [digit_char (n mod 10)] = show_nat (m div 10) @ [digit_char (m mod 10)]"
        by (simp add: show_nat.simps[of n] show_nat.simps[of m])
      then have "show_nat (n div 10) = show_nat (m div 10)" and d: "digit_char (n mod 10) = digit_char (m mod 10)"
        by simp_all
      with 1(1)[OF False] have q: "n div 10 = m div 10" by blast
      from d have r: "n mod 10 = m mod 10" by (intro digit_char_inj) simp_all
      from q r show ?thesis by (metis div_mult_mod_eq)
    qed
  qed
qed

lemma show_nat_eq_iff [simp]: "show_nat n = show_nat m \<longleftrightarrow> n = m"
  using show_nat_inj by blast

lemma record_tool_call_emitted [simp]:
  "emittedToolCalls (record_tool_call i tc st) = emittedToolCalls st"
  "nextAutoIndex (record_tool_call i tc st) = nextAutoIndex st"
  by (simp_all add: record_tool_call_def Let_def)

lemma chunk_loop_emitted [simp]:
  "emittedToolCalls (chunk_loop i tcs st) = emittedToolCalls st"
  "nextAutoIndex (chunk_loop i tcs st) = nextAutoIndex st"
  by (induction i tcs st rule: chunk_loop.induct) simp_all

lemma on_chunk_emitted [simp]:
  "emittedToolCalls (on_chunk st c) = emittedToolCalls st"
  "nextAutoIndex (on_chunk st c) = nextAutoIndex st"
  by (cases c; simp)+

lemma on_arguments_delta_fresh:
  "show_nat (resolve_index st ev) \<notin> emittedToolCalls st \<Longrightarrow>
   on_arguments_delta st ev =
     (st\<lparr>emittedToolCalls := insert (show_nat (resolve_index st ev)) (emittedToolCalls st),
         nextAutoIndex := resolve_index st ev + 1\<rparr>,
      [ToolUseEvent (resolve_id st (resolve_index st ev) (ev_name ev)) (ev_name ev),
       ToolUseInputEvent (resolve_id st (resolve_index st ev) (ev_name ev)) (ev_name ev)
         (ev_arguments_delta ev)])"
  by (simp add: on_arguments_delta_def Let_def)

lemma on_arguments_delta_seen:
  "show_nat (resolve_index st ev) \<in> emittedToolCalls st \<Longrightarrow>
   on_arguments_delta st ev =
     (st, [ToolUseInputEvent (resolve_id st (resolve_index st ev) (ev_name ev)) (ev_name ev)
             (ev_arguments_delta ev)])"
  by (simp add: on_arguments_delta_def Let_def)

lemma starts_at_append [simp]: "starts_at p (xs @ ys) = starts_at p xs @ starts_at p ys"
  by (induction p xs rule: starts_at.induct) simp_all

lemma inputs_at_append [simp]: "inputs_at p (xs @ ys) = inputs_at p xs @ inputs_at p ys"
  by (induction p xs rule: inputs_at.induct) simp_all

lemma no_start_when_emitted:
  "show_nat p \<in> emittedToolCalls st \<Longrightarrow> starts_at p (trace st ss) = []"
proof (induction ss arbitrary: st)
  case Nil
  then show ?case by simp
next
  case (Cons s ss)
  show ?case
  proof (cases s)
    case (ContentDelta d)
    with Cons show ?thesis by simp
  next
    case (Chunk c)
    with Cons show ?thesis by simp
  next
    case (ArgumentsDelta ev)
    show ?thesis
    proof (cases "show_nat (resolve_index st ev) \<in> emittedToolCalls st")
      case True
      with Cons ArgumentsDelta show ?thesis
        by (simp add: on_arguments_delta_seen)
    next
      case False
      with Cons.prems have "resolve_index st ev \<noteq> p" by auto
      with Cons False ArgumentsDelta show ?thesis
        by (simp add: on_arguments_delta_fresh)
    qed
  qed
qed

lemma start_decomposition:
  "show_nat p \<notin> emittedToolCalls st \<Longrightarrow> (Some p, e) \<in> set (trace st ss) \<Longrightarrow>
   \<exists>pre post i n a. trace st ss = pre @ (Some p, ToolUseEvent i n) # (Some p, ToolUseInputEvent i n a) # post
      \<and> (\<forall>x\<in>set pre. fst x \<noteq> Some p) \<and> starts_at p post = []"
proof (induction ss arbitrary: st)
  case Nil
  then show ?case by simp
next
  case (Cons s ss)
  let ?st' = "fst (handle st s)"
  have step: "trace st (s # ss) = map (Pair (position_of st s)) (snd (handle st s)) @ trace ?st' ss"
    by simp
  show ?case
  proof (cases "position_of st s = Some p")
    case True
    then obtain ev where s: "s = ArgumentsDelta ev" and p: "resolve_index st ev = p"
      by (cases s) auto
    from Cons.prems(1) p have fresh: "show_nat (resolve_index st ev) \<notin> emittedToolCalls st" by simp
    have "show_nat p \<in> emittedToolCalls ?st'"
      using s p fresh by (simp add: on_arguments_delta_fresh)
    then have "starts_at p (trace ?st' ss) = []" by (rule no_start_when_emitted)
    then show ?thesis using s p fresh
      by (intro exI[of _ "[]"] exI[of _ "trace ?st' ss"]
            exI[of _ "resolve_id st p (ev_name ev)"] exI[of _ "ev_name ev"]
            exI[of _ "ev_arguments_delta ev"])
         (simp add: on_arguments_delta_fresh)
  next
    case False
    have keep: "show_nat p \<notin> emittedToolCalls ?st'"
    proof (cases s)
      case (ArgumentsDelta ev)
      with False have "resolve_index st ev \<noteq> p" by simp
      with Cons.prems(1) ArgumentsDelta show ?thesis
        by (cases "show_nat (resolve_index st ev) \<in> emittedToolCalls st")
           (simp_all add: on_arguments_delta_fresh on_arguments_delta_seen)
    qed (use Cons.prems(1) in simp_all)
    from False Cons.prems(2) have "(Some p, e) \<in> set (trace ?st' ss)"
      by (auto simp del: handle.simps)
    from Cons.IH[OF keep this] obtain pre post i n a where
      t: "trace ?st' ss = pre @ (Some p, ToolUseEvent i n) # (Some p, ToolUseInputEvent i n a) # post"
      and pre: "\<forall>x\<in>set pre. fst x \<noteq> Some p" and post: "starts_at p post = []"
      by blast
    let ?pre = "map (Pair (position_of st s)) (snd (handle st s)) @ pre"
    have "trace st (s # ss) = ?pre @ (Some p, ToolUseEvent i n) # (Some p, ToolUseInputEvent i n a) # post"
      using t by simp
    moreover have "\<forall>x\<in>set ?pre. fst x \<noteq> Some p"
      using pre False by auto
    ultimately show ?thesis using post by blast
  qed
qed

lemma fragment_emits_input:
  "(p, ev) \<in> set (fragments st ss) \<Longrightarrow>
   \<exists>i. (Some p, ToolUseInputEvent i (ev_name ev) (ev_arguments_delta ev)) \<in> set (trace st ss)"
proof (induction st ss rule: fragments.induct)
  case (2 st ev' ss)
  then show ?case
    by (cases "show_nat (resolve_index st ev') \<in> emittedToolCalls st")
       (auto simp: on_arguments_delta_fresh on_arguments_delta_seen)
qed auto





lemma on_arguments_delta_maps [simp]:
  "toolCallIds (fst (on_arguments_delta st ev)) = toolCallIds st"
  "toolCallIdsByName (fst (on_arguments_delta st ev)) = toolCallIdsByName st"
  by (simp_all add: on_arguments_delta_def Let_def)







lemma starts_at_empty_iff: "starts_at p xs = [] \<longleftrightarrow> (\<forall>x\<in>set xs. fst x = Some p \<longrightarrow> \<not> is_tool_use (snd x))"
  by (induction p xs rule: starts_at.induct) auto

lemma starts_at_untagged: "\<forall>x\<in>set xs. fst x \<noteq> Some p \<Longrightarrow> starts_at p xs = []"
  by (simp add: starts_at_empty_iff)

lemma show_nat_0: "show_nat 0 = ''0''"
  by (simp add: show_nat.simps digit_char_def)

lemma show_nat_1: "show_nat (Suc 0) = ''1''"
  by (simp add: show_nat.simps digit_char_def)

lemmas stream_eval =
  initial_state_def on_arguments_delta_def resolve_index_def resolve_id_def
  record_tool_call_def Let_def show_nat_0 show_nat_1

subsection \<open>Identity of the events of one position\<close>




subsection \<open>One start event per position\<close>

text \<open>
  Claim C2. For every stream and every position \<open>p\<close> that some argument-delta fragment
  resolves to, exactly one \<^verbatim>\<open>tool_use\<close> start event is emitted for \<open>p\<close>; no event of
  \<open>p\<close> precedes it, and it is immediately followed by the first \<^verbatim>\<open>tool_use_input\<close>
  event of \<open>p\<close>.
\<close>

theorem start_before_fragments:
  assumes "(p, ev) \<in> set (fragments initial_state ss)"
  shows "length (starts_at p (trace initial_state ss)) = 1 \<and>
    (\<exists>pre post i n a.
       trace initial_state ss =
         pre @ (Some p, ToolUseEvent i n) # (Some p, ToolUseInputEvent i n a) # post \<and>
       list_all (\<lambda>x. fst x \<noteq> Some p) pre)"
proof -
  from fragment_emits_input[OF assms] obtain j where
    "(Some p, ToolUseInputEvent j (ev_name ev) (ev_arguments_delta ev)) \<in> set (trace initial_state ss)"
    by blast
  moreover have "show_nat p \<notin> emittedToolCalls initial_state"
    by (simp add: initial_state_def)
  ultimately obtain pre post i n a where
    t: "trace initial_state ss =
         pre @ (Some p, ToolUseEvent i n) # (Some p, ToolUseInputEvent i n a) # post"
    and pre: "\<forall>x\<in>set pre. fst x \<noteq> Some p" and post: "starts_at p post = []"
    using start_decomposition by blast
  have "length (starts_at p (trace initial_state ss)) = 1"
    by (simp add: t starts_at_untagged[OF pre] post)
  moreover from pre have "list_all (\<lambda>x. fst x \<noteq> Some p) pre" by (simp add: list_all_iff)
  ultimately show ?thesis using t by blast
qed

text \<open>
  Claim C2 at the example stream: position 0 has one start event, emitted first.
\<close>

theorem start_before_fragments_witness:
  "(0, \<lparr>ev_name = ''f'', ev_index = Some 0, ev_arguments_delta = ''}''\<rparr>) \<in>
     set (fragments initial_state (id_chunk @ two_fragments)) \<and>
   length (starts_at 0 (trace initial_state (id_chunk @ two_fragments))) = 1 \<and>
   trace initial_state (id_chunk @ two_fragments) =
     [(Some 0, ToolUseEvent ''call_1'' ''f''),
      (Some 0, ToolUseInputEvent ''call_1'' ''f'' ''{''),
      (Some 0, ToolUseInputEvent ''call_1'' ''f'' ''}'')]"
proof -
  have h: "(0, \<lparr>ev_name = ''f'', ev_index = Some 0, ev_arguments_delta = ''}''\<rparr>) \<in>
     set (fragments initial_state (id_chunk @ two_fragments))"
    by (simp add: id_chunk_def two_fragments_def stream_eval)
  from start_before_fragments[OF h]
  have c: "length (starts_at 0 (trace initial_state (id_chunk @ two_fragments))) = 1"
    by (rule conjunct1)
  have t: "trace initial_state (id_chunk @ two_fragments) =
     [(Some 0, ToolUseEvent ''call_1'' ''f''),
      (Some 0, ToolUseInputEvent ''call_1'' ''f'' ''{''),
      (Some 0, ToolUseInputEvent ''call_1'' ''f'' ''}'')]"
    by (simp add: id_chunk_def two_fragments_def stream_eval)
  from h c t show ?thesis by (intro conjI)
qed

subsection \<open>Fragments without index and id\<close>

text \<open>
  Claim C3 says that, when every fragment omits index and id, every fragment of one
  call carries that call's single id. The stream below is a call \<open>f\<close> delivered in two
  fragments, followed by a call \<open>g\<close> delivered in one, all without index and id. The
  counter \<open>nextAutoIndex\<close> has already moved past position 0 when the second fragment
  of \<open>f\<close> arrives, so that fragment resolves to position 1: a second start event is
  emitted for \<open>f\<close> and its argument text is split between the ids \<^verbatim>\<open>fallback_0\<close> and
  \<^verbatim>\<open>fallback_1\<close>.
\<close>

theorem fallback_splits_one_call:
  "run initial_state
     [Chunk (Some [\<lparr>tc_index = None, tc_id = None, tc_function_name = Some ''f''\<rparr>]),
      ArgumentsDelta \<lparr>ev_name = ''f'', ev_index = None, ev_arguments_delta = ''{''\<rparr>,
      Chunk (Some [\<lparr>tc_index = None, tc_id = None, tc_function_name = None\<rparr>]),
      ArgumentsDelta \<lparr>ev_name = ''f'', ev_index = None, ev_arguments_delta = ''}''\<rparr>,
      Chunk (Some [\<lparr>tc_index = None, tc_id = None, tc_function_name = Some ''g''\<rparr>]),
      ArgumentsDelta \<lparr>ev_name = ''g'', ev_index = None, ev_arguments_delta = ''[]''\<rparr>] =
   [ToolUseEvent ''fallback_0'' ''f'', ToolUseInputEvent ''fallback_0'' ''f'' ''{'',
    ToolUseEvent ''fallback_1'' ''f'', ToolUseInputEvent ''fallback_1'' ''f'' ''}'',
    ToolUseEvent ''fallback_2'' ''g'', ToolUseInputEvent ''fallback_2'' ''g'' ''[]'']"
  by (simp add: run_def stream_eval show_nat.simps digit_char_def)

section \<open>Properties of the request formatter\<close>

lemma map_user_block_tool_messages:
  "\<exists>tools. toolMessages (snd (map_user_block fcm c st)) = toolMessages st @ tools \<and>
     list_all is_tool_message tools \<and> map tool_call_id tools = map Some (tool_result_ids [c])"
  by (cases c) (auto simp: Let_def split: prod.splits option.splits)

lemma tool_result_ids_Cons: "tool_result_ids (c # cs) = tool_result_ids [c] @ tool_result_ids cs"
  by (cases c) simp_all

lemma map_user_content_tool_messages:
  "\<exists>tools. toolMessages (snd (map_user_content fcm cs st)) = toolMessages st @ tools \<and>
     list_all is_tool_message tools \<and> map tool_call_id tools = map Some (tool_result_ids cs)"
proof (induction cs arbitrary: st)
  case Nil
  then show ?case by simp
next
  case (Cons c cs)
  obtain m st1 where b: "map_user_block fcm c st = (m, st1)" by (cases "map_user_block fcm c st")
  obtain ms st2 where r: "map_user_content fcm cs st1 = (ms, st2)"
    by (cases "map_user_content fcm cs st1")
  from map_user_block_tool_messages[of fcm c st] b obtain t1 where
    t1: "toolMessages st1 = toolMessages st @ t1" "list_all is_tool_message t1"
        "map tool_call_id t1 = map Some (tool_result_ids [c])"
    by auto
  from Cons.IH[of st1] r obtain t2 where
    t2: "toolMessages st2 = toolMessages st1 @ t2" "list_all is_tool_message t2"
        "map tool_call_id t2 = map Some (tool_result_ids cs)"
    by auto
  have "toolMessages (snd (map_user_content fcm (c # cs) st)) = toolMessages st @ (t1 @ t2)"
    using b r t1(1) t2(1) by simp
  moreover have "list_all is_tool_message (t1 @ t2)" using t1(2) t2(2) by simp
  moreover have "map tool_call_id (t1 @ t2) = map Some (tool_result_ids (c # cs))"
    using t1(3) t2(3) by (subst tool_result_ids_Cons) simp
  ultimately show ?case by blast
qed

lemma format_user_shape:
  "\<exists>tools main.
     formatInputMessage JSON_stringify \<lparr>msg_role = User, msg_content = content\<rparr> fcm =
       Many (tools @ main) \<and>
     list_all is_tool_message tools \<and>
     map tool_call_id tools = map Some (tool_result_ids content) \<and>
     (main = [] \<or> (\<exists>parts. parts \<noteq> [] \<and> main = [RoleMessageParam User parts None]))"
proof -
  let ?st0 = "\<lparr>attachmentIndex = 0, toolResultImageIndex = 0, toolMessages = []\<rparr>"
  obtain ms st where r: "map_user_content fcm content ?st0 = (ms, st)"
    by (cases "map_user_content fcm content ?st0")
  from map_user_content_tool_messages[of fcm content ?st0] r obtain tools where
    t: "toolMessages st = tools" "list_all is_tool_message tools"
       "map tool_call_id tools = map Some (tool_result_ids content)"
    by auto
  let ?parts = "flat (filter (\<lambda>c. c \<noteq> Null) ms)"
  let ?main = "if ?parts \<noteq> [] then [RoleMessageParam User ?parts None] else []"
  have "formatInputMessage JSON_stringify \<lparr>msg_role = User, msg_content = content\<rparr> fcm =
      Many (tools @ ?main)"
    using r t(1) by (auto simp: formatInputMessage_def Let_def)
  moreover have "?main = [] \<or> (\<exists>parts. parts \<noteq> [] \<and> ?main = [RoleMessageParam User parts None])"
    by simp
  ultimately show ?thesis using t(2,3) by blast
qed

lemma supported_image_part:
  "isSupportedImageType (src_mediaType img) \<Longrightarrow> \<exists>u. mapImageBlockToOpenAI img = ImageUrlPart u ''high''"
  by (cases img) (simp_all add: mapImageBlockToOpenAI_def)

text \<open>
  Claim C4. A user message holding one tool result with the text \<^verbatim>\<open>42\<close> and one image
  of a supported media type is formatted to exactly two wire messages: the tool-role
  message with the tool result's id and the content \<^verbatim>\<open>42\<close>, a newline and
  \<^verbatim>\<open>[See image 1 below]\<close>, then the user message whose content is the converted image.
  In general the output for a user message is the derived tool-role messages, one per
  tool result and in order, followed by at most one user message, which is present only
  with a non-empty content.
\<close>

theorem tool_result_scenario:
  assumes "isSupportedImageType (src_mediaType img)"
  shows "formatInputMessage JSON_stringify
           \<lparr>msg_role = User,
            msg_content = [ToolResultBlock tid [ResultText ''42'', ResultImage img]]\<rparr> fcm =
         Many [ToolMessageParam (''42'' @ [CHR 0x0A] @ ''[See image 1 below]'') tid,
               RoleMessageParam User [mapImageBlockToOpenAI img] None] \<and>
    (\<exists>tools main.
       formatInputMessage JSON_stringify \<lparr>msg_role = User, msg_content = content\<rparr> fcm' =
         Many (tools @ main) \<and>
       list_all is_tool_message tools \<and>
       map tool_call_id tools = map Some (tool_result_ids content) \<and>
       (main = [] \<or> (\<exists>parts. parts \<noteq> [] \<and> main = [RoleMessageParam User parts None])))"
proof -
  from supported_image_part[OF assms] obtain u where u: "mapImageBlockToOpenAI img = ImageUrlPart u ''high''"
    by blast
  have "formatInputMessage JSON_stringify
           \<lparr>msg_role = User,
            msg_content = [ToolResultBlock tid [ResultText ''42'', ResultImage img]]\<rparr> fcm =
         Many [ToolMessageParam (''42'' @ [CHR 0x0A] @ ''[See image 1 below]'') tid,
               RoleMessageParam User [mapImageBlockToOpenAI img] None]"
    by (simp add: formatInputMessage_def u show_nat_1)
  with format_user_shape[of JSON_stringify content fcm'] show ?thesis by blast
qed

text \<open>
  Claim C4 at a base64 PNG image.
\<close>

theorem tool_result_scenario_witness:
  "isSupportedImageType (src_mediaType (Base64Source ''image/png'' ''AAAA'')) \<and>
   formatInputMessage json_stringify
     \<lparr>msg_role = User,
      msg_content =
        [ToolResultBlock ''call_a'' [ResultText ''42'', ResultImage (Base64Source ''image/png'' ''AAAA'')]]\<rparr>
     None =
   Many [ToolMessageParam (''42'' @ [CHR 0x0A] @ ''[See image 1 below]'') ''call_a'',
         RoleMessageParam User [ImageUrlPart (Some ''data:image/png;base64,AAAA'') ''high''] None]"
proof -
  have h: "isSupportedImageType (src_mediaType (Base64Source ''image/png'' ''AAAA''))"
    by (simp add: isSupportedImageType_def SUPPORTED_IMAGE_TYPES_def)
  show ?thesis
    using h tool_result_scenario[OF h, of json_stringify "''call_a''" None]
    by (simp add: mapImageBlockToOpenAI_def)
qed

lemma map_user_content_append:
  "map_user_content fcm (xs @ ys) st =
     (case map_user_content fcm xs st of
        (ms, st1) \<Rightarrow> (case map_user_content fcm ys st1 of (ms', st2) \<Rightarrow> (ms @ ms', st2)))"
  by (induction xs arbitrary: st) (auto split: prod.splits)

text \<open>
  A \<^verbatim>\<open>file_attachment\<close> block on which the property access yields undefined can be
  removed from a user message without changing the formatted output: the blocks before
  and after it, attachment numbers included, are mapped as without it. This is the
  case of a file id that is neither an entry of the cache nor an inherited name.
\<close>

lemma undefined_attachment_dropped:
  assumes "cache_lookup fcm fileId = None"
  shows "formatInputMessage JSON_stringify
           \<lparr>msg_role = User, msg_content = xs @ FileAttachmentBlock fileId mimeType # ys\<rparr> fcm =
         formatInputMessage JSON_stringify \<lparr>msg_role = User, msg_content = xs @ ys\<rparr> fcm"
  using assms
  by (auto simp: formatInputMessage_def map_user_content_append Let_def split: prod.splits)

lemma absent_attachment_dropped:
  assumes "m fileId = None" and "fileId \<notin> set Object_prototype_names"
  shows "formatInputMessage JSON_stringify
           \<lparr>msg_role = User, msg_content = xs @ FileAttachmentBlock fileId mimeType # ys\<rparr>
           (Some m) =
         formatInputMessage JSON_stringify \<lparr>msg_role = User, msg_content = xs @ ys\<rparr> (Some m)"
  using assms by (intro undefined_attachment_dropped) (simp add: cache_lookup_def)

lemma absent_attachment_dropped_example:
  "formatInputMessage json_stringify
     \<lparr>msg_role = User,
      msg_content = [TextBlock ''see''] @ FileAttachmentBlock ''file_9'' ''image/png'' #
                    [FileAttachmentBlock ''file_1'' ''text/plain'']\<rparr> example_cache =
   Many [RoleMessageParam User
           [TextPart ''see'',
            TextPart (''Attachment 1:'' @ [CHR 0x0A] @ ''MIME type: text/plain'' @ [CHR 0x0A] @
                      ''Cached at: /cache/file_1'')] None]"
  by (simp add: formatInputMessage_def cache_lookup_def example_cache_def example_entries_def
        Object_prototype_names_def isSupportedImageType_def SUPPORTED_IMAGE_TYPES_def show_nat_1)

text \<open>
  Claim C7 says that a \<^verbatim>\<open>file_attachment\<close> block whose file id is absent from the cache
  map contributes nothing and leaves the numbering of its siblings alone. The file id
  \<^verbatim>\<open>toString\<close> is absent from the example cache, but the property access finds the
  inherited member of that name, which is truthy: the block is kept as attachment 1
  with the cache path \<^verbatim>\<open>undefined\<close>, and the resolved attachment after it is numbered 2
  instead of 1.
\<close>

theorem inherited_name_keeps_attachment:
  "example_entries ''toString'' = None \<and>
   formatInputMessage json_stringify
     \<lparr>msg_role = User,
      msg_content = [FileAttachmentBlock ''toString'' ''text/plain'',
                     FileAttachmentBlock ''file_1'' ''text/plain'']\<rparr> example_cache =
   Many [RoleMessageParam User
           [TextPart (''Attachment 1:'' @ [CHR 0x0A] @ ''MIME type: text/plain'' @ [CHR 0x0A] @
                      ''Cached at: undefined''),
            TextPart (''Attachment 2:'' @ [CHR 0x0A] @ ''MIME type: text/plain'' @ [CHR 0x0A] @
                      ''Cached at: /cache/file_1'')] None] \<and>
   formatInputMessage json_stringify
     \<lparr>msg_role = User,
      msg_content = [FileAttachmentBlock ''file_1'' ''text/plain'']\<rparr> example_cache =
   Many [RoleMessageParam User
           [TextPart (''Attachment 1:'' @ [CHR 0x0A] @ ''MIME type: text/plain'' @ [CHR 0x0A] @
                      ''Cached at: /cache/file_1'')] None]"
  by (simp add: formatInputMessage_def cache_lookup_def example_cache_def example_entries_def
        Object_prototype_names_def isSupportedImageType_def SUPPORTED_IMAGE_TYPES_def
        show_nat.simps digit_char_def)

section \<open>Properties of the JSON built-ins on the fragment\<close>

lemma digit_char_is_digit: "d < 10 \<Longrightarrow> is_digit (digit_char d)"
  by (simp add: is_digit_def digit_char_def del: set_simps list.set)

lemma digit_value_digit_char: "d < 10 \<Longrightarrow> digit_value (digit_char d) = d"
  by (simp add: digit_value_def digit_char_value)

lemma show_nat_digits: "list_all is_digit (show_nat n)"
proof (induction n rule: show_nat.induct)
  case (1 n)
  show ?case
  proof (cases "n < 10")
    case True
    then show ?thesis by (subst show_nat.simps) (simp add: digit_char_is_digit)
  next
    case False
    with 1 show ?thesis by (subst show_nat.simps) (simp add: digit_char_is_digit)
  qed
qed

lemma show_nat_value: "foldl (\<lambda>a c. 10 * a + digit_value c) 0 (show_nat n) = n"
proof (induction n rule: show_nat.induct)
  case (1 n)
  show ?case
  proof (cases "n < 10")
    case True
    then show ?thesis by (subst show_nat.simps) (simp add: digit_value_digit_char)
  next
    case False
    with 1 show ?thesis by (subst show_nat.simps) (simp add: digit_value_digit_char)
  qed
qed

lemma show_nat_hd: "0 < n \<Longrightarrow> hd (show_nat n) \<noteq> CHR ''0''"
proof (induction n rule: show_nat.induct)
  case (1 n)
  show ?case
  proof (cases "n < 10")
    case True
    have z: "digit_char 0 = CHR ''0''" by (simp add: digit_char_def)
    from True 1(2) have "digit_char n \<noteq> digit_char 0"
      using digit_char_inj[of n 0] by auto
    with True z show ?thesis by (subst show_nat.simps) simp
  next
    case False
    then have "0 < n div 10" by simp
    with 1(1)[OF False] have "hd (show_nat (n div 10)) \<noteq> CHR ''0''" by simp
    with False show ?thesis
      by (subst show_nat.simps) (simp add: show_nat_nonempty)
  qed
qed

lemma show_nat_no_leading_zero:
  "\<not> (1 < length (show_nat n) \<and> hd (show_nat n) = CHR ''0'')"
proof (cases "n = 0")
  case True
  then show ?thesis by (simp add: show_nat_0)
next
  case False
  then show ?thesis using show_nat_hd[of n] by simp
qed

lemma terminated_not_digit: "terminated rest \<Longrightarrow> takeWhile is_digit rest = [] \<and> dropWhile is_digit rest = rest"
  by (cases rest) (auto simp: terminated_def is_digit_def)

lemma parse_digits_show_nat:
  "terminated rest \<Longrightarrow> parse_digits (show_nat n @ rest) = Some (n, rest)"
proof -
  assume t: "terminated rest"
  have d: "\<And>x. x \<in> set (show_nat n) \<Longrightarrow> is_digit x"
    using show_nat_digits[of n] by (simp add: list_all_iff)
  have tw: "takeWhile is_digit (show_nat n @ rest) = show_nat n"
    using d terminated_not_digit[OF t] by (simp add: takeWhile_append2)
  have dw: "dropWhile is_digit (show_nat n @ rest) = rest"
    using d terminated_not_digit[OF t] by (simp add: dropWhile_append2)
  show ?thesis
    using show_nat_no_leading_zero[of n]
    by (simp add: parse_digits_def tw dw Let_def show_nat_nonempty show_nat_value)
qed

lemma show_nat_hd_digit: "is_digit (hd (show_nat n))"
  using show_nat_digits[of n] show_nat_nonempty[of n]
  by (cases "show_nat n") (simp_all add: list_all_iff)

lemma minus_not_digit: "\<not> is_digit (CHR ''-'')"
  by (simp add: is_digit_def)

lemma parse_number_show_int:
  "terminated rest \<Longrightarrow> parse_number (show_int k @ rest) = Some (JNumber k, rest)"
proof (cases "k < 0")
  case True
  assume "terminated rest"
  with True show ?thesis
    by (simp add: parse_number_def show_int_def parse_digits_show_nat)
next
  case False
  assume t: "terminated rest"
  obtain c cs where s: "show_nat (nat k) = c # cs"
    using show_nat_nonempty[of "nat k"] by (cases "show_nat (nat k)") auto
  with show_nat_hd_digit[of "nat k"] minus_not_digit have "c \<noteq> CHR ''-''" by auto
  with False s parse_digits_show_nat[OF t, of "nat k"] show ?thesis
    by (simp add: parse_number_def show_int_def)
qed

lemma hex_value_hex_digit: "d < 16 \<Longrightarrow> hex_value (hex_digit d) = Some d"
proof -
  assume "d < 16"
  then have "d \<in> set [0..<16]" by simp
  moreover have "\<forall>d\<in>set [0..<16]. hex_value (hex_digit d) = Some d" by code_simp
  ultimately show ?thesis by blast
qed

lemma hex_value_zero: "hex_value (CHR ''0'') = Some 0"
  by (simp add: hex_value_def is_digit_def)

lemma hex4_code_unit:
  "n < 256 \<Longrightarrow>
   hex4 (CHR ''0'' # CHR ''0'' # hex_digit (n div 16) # hex_digit (n mod 16) # t) = Some n"
  by (simp add: hex_value_zero hex_value_hex_digit)

lemma parse_string_escape_char:
  "parse_string acc (escape_char c @ t) = parse_string (acc @ [c]) t"
proof -
  have n: "(of_char c :: nat) < 256" by simp
  consider "c = CHR 0x22" | "c = CHR 0x5C" | "c = CHR 0x08" | "c = CHR 0x09" | "c = CHR 0x0A"
    | "c = CHR 0x0C" | "c = CHR 0x0D"
    | "c \<noteq> CHR 0x22" "c \<noteq> CHR 0x5C" "c \<noteq> CHR 0x08" "c \<noteq> CHR 0x09" "c \<noteq> CHR 0x0A"
      "c \<noteq> CHR 0x0C" "c \<noteq> CHR 0x0D" "(of_char c :: nat) < 32"
    | "c \<noteq> CHR 0x22" "c \<noteq> CHR 0x5C" "\<not> (of_char c :: nat) < 32"
    by blast
  then show ?thesis
  proof cases
    case 8
    then show ?thesis
      using hex4_code_unit[OF n, of t] by (simp add: escape_char_def)
  next
    case 9
    then show ?thesis by (simp add: escape_char_def)
  qed (simp_all add: escape_char_def)
qed

lemma parse_string_quote:
  "parse_string acc (concat (map escape_char s) @ CHR 0x22 # rest) = Some (acc @ s, rest)"
proof (induction s arbitrary: acc)
  case Nil
  then show ?case by simp
next
  case (Cons c s)
  have "parse_string acc (concat (map escape_char (c # s)) @ CHR 0x22 # rest) =
        parse_string acc (escape_char c @ (concat (map escape_char s) @ CHR 0x22 # rest))"
    by simp
  also have "\<dots> = parse_string (acc @ [c]) (concat (map escape_char s) @ CHR 0x22 # rest)"
    by (rule parse_string_escape_char)
  also have "\<dots> = Some ((acc @ [c]) @ s, rest)" by (rule Cons.IH)
  finally show ?case by simp
qed

lemma show_int_head: "\<exists>c cs. show_int k = c # cs \<and> (c = CHR ''-'' \<or> is_digit c)"
proof (cases "k < 0")
  case True
  then show ?thesis by (simp add: show_int_def)
next
  case False
  obtain c cs where s: "show_nat (nat k) = c # cs"
    using show_nat_nonempty[of "nat k"] by (cases "show_nat (nat k)") auto
  with show_nat_hd_digit[of "nat k"] False show ?thesis by (simp add: show_int_def)
qed

lemma digit_or_minus_start: "c = CHR ''-'' \<or> is_digit c \<Longrightarrow> value_start c"
  by (auto simp: value_start_def is_digit_def is_ws_def)

lemma stringify_start: "\<exists>c cs. json_stringify v = c # cs \<and> value_start c"
proof (cases v)
  case (JNumber k)
  from show_int_head[of k] obtain c cs where "show_int k = c # cs" "c = CHR ''-'' \<or> is_digit c"
    by blast
  with JNumber digit_or_minus_start[of c] show ?thesis by simp
qed (simp_all add: value_start_def is_ws_def quote_def)

lemma skip_ws_start: "value_start c \<Longrightarrow> skip_ws (c # cs) = c # cs"
  by (simp add: skip_ws_def value_start_def)

lemma skip_ws_stringify: "skip_ws (json_stringify v @ rest) = json_stringify v @ rest"
  using stringify_start[of v] by (auto simp: skip_ws_start)

lemma terminated_simps [simp]:
  "terminated []" "terminated (CHR '','' # r)" "terminated (CHR '']'' # r)"
  "terminated (CHR ''}'' # r)"
  by (simp_all add: terminated_def)

lemma skip_ws_punct [simp]:
  "skip_ws (CHR '','' # r) = CHR '','' # r" "skip_ws (CHR '']'' # r) = CHR '']'' # r"
  "skip_ws (CHR ''}'' # r) = CHR ''}'' # r" "skip_ws (CHR '':'' # r) = CHR '':'' # r"
  "skip_ws (CHR 0x22 # r) = CHR 0x22 # r"
  by (simp_all add: skip_ws_def is_ws_def)

lemma parse_elements_stringify:
  assumes "\<And>x fuel rest. x \<in> set xs \<Longrightarrow> terminated rest \<Longrightarrow> length (json_stringify x) < fuel \<Longrightarrow>
             parse_value fuel (json_stringify x @ rest) = Some (x, rest)"
    and "xs \<noteq> []"
    and "length (join '','' (map json_stringify xs)) + 2 \<le> fuel"
  shows "parse_elements fuel acc (join '','' (map json_stringify xs) @ CHR '']'' # rest) =
           Some (JArray (acc @ xs), rest)"
  using assms
proof (induction xs arbitrary: fuel acc)
  case Nil
  then show ?case by simp
next
  case (Cons x xs)
  from Cons.prems(3) obtain f where f: "fuel = Suc f" by (cases fuel) auto
  show ?case
  proof (cases xs)
    case Nil
    from Cons.prems(3) f Nil have lx: "length (json_stringify x) < f" by simp
    have "parse_value f (json_stringify x @ CHR '']'' # rest) = Some (x, CHR '']'' # rest)"
      by (rule Cons.prems(1)) (simp_all add: lx)
    with f Nil show ?thesis by simp
  next
    case (Cons y ys)
    from Cons.prems(3) f Cons have lx: "length (json_stringify x) < f"
      and lr: "length (join '','' (map json_stringify xs)) + 2 \<le> f" by simp_all
    have pv: "parse_value f (json_stringify x @ CHR '','' # join '','' (map json_stringify xs) @
                CHR '']'' # rest) =
              Some (x, CHR '','' # join '','' (map json_stringify xs) @ CHR '']'' # rest)"
      by (rule Cons.prems(1)) (simp_all add: lx)
    have ih: "parse_elements f (acc @ [x]) (join '','' (map json_stringify xs) @ CHR '']'' # rest) =
              Some (JArray ((acc @ [x]) @ xs), rest)"
    proof (rule Cons.IH)
      show "xs \<noteq> []" using Cons by simp
      show "length (join '','' (map json_stringify xs)) + 2 \<le> f" by (rule lr)
    next
      fix z fuel' rest'
      assume "z \<in> set xs" "terminated rest'" "length (json_stringify z) < fuel'"
      then show "parse_value fuel' (json_stringify z @ rest') = Some (z, rest')"
        using Cons.prems(1)[of z rest' fuel'] by simp
    qed
    have "join '','' (map json_stringify (x # xs)) =
            json_stringify x @ CHR '','' # join '','' (map json_stringify xs)"
      using Cons by simp
    with f pv ih show ?thesis by simp
  qed
qed

lemma set_member_fresh: "k \<notin> fst ` set acc \<Longrightarrow> set_member k v acc = acc @ [(k, v)]"
  by (induction acc) auto

lemma stringify_object:
  "json_stringify (JObject kvs) = ''{'' @ join '','' (map member_text kvs) @ ''}''"
proof -
  have "(\<lambda>(k, v). quote k @ '':'' @ json_stringify v) = member_text"
    by (auto simp: member_text_def fun_eq_iff)
  then show ?thesis by simp
qed

lemma parse_member_step:
  assumes "parse_value f (json_stringify v @ r) = Some (v, r)"
  shows "parse_members (Suc f) acc (member_text (k, v) @ r) =
           (case skip_ws r of
              [] \<Rightarrow> None
            | e # es \<Rightarrow>
                if e = CHR ''}'' then Some (JObject (set_member k v acc), es)
                else if e = CHR '','' then parse_members f (set_member k v acc) es
                else None)"
proof -
  have "member_text (k, v) @ r =
          CHR 0x22 # concat (map escape_char k) @ CHR 0x22 # (CHR '':'' # json_stringify v @ r)"
    by (simp add: member_text_def quote_def)
  moreover have "parse_string [] (concat (map escape_char k) @ CHR 0x22 #
                    (CHR '':'' # json_stringify v @ r)) =
                 Some (k, CHR '':'' # json_stringify v @ r)"
    using parse_string_quote[of "[]" k] by simp
  ultimately show ?thesis using assms by simp
qed

lemma parse_members_stringify:
  assumes "\<And>k v fuel rest. (k, v) \<in> set kvs \<Longrightarrow> terminated rest \<Longrightarrow>
             length (json_stringify v) < fuel \<Longrightarrow>
             parse_value fuel (json_stringify v @ rest) = Some (v, rest)"
    and "kvs \<noteq> []"
    and "length (join '','' (map member_text kvs)) + 2 \<le> fuel"
    and "distinct (map fst kvs)"
    and "fst ` set acc \<inter> fst ` set kvs = {}"
  shows "parse_members fuel acc (join '','' (map member_text kvs) @ CHR ''}'' # rest) =
           Some (JObject (acc @ kvs), rest)"
  using assms
proof (induction kvs arbitrary: fuel acc)
  case Nil
  then show ?case by simp
next
  case (Cons kv kvs)
  obtain k v where kv: "kv = (k, v)" by (cases kv)
  from Cons.prems(3) obtain f where f: "fuel = Suc f" by (cases fuel) auto
  from Cons.prems(5) kv have fresh: "k \<notin> fst ` set acc" by auto
  have lv: "length (json_stringify v) < length (member_text (k, v))"
    by (simp add: member_text_def quote_def)
  show ?case
  proof (cases kvs)
    case Nil
    from Cons.prems(3) f Nil kv lv have "length (json_stringify v) < f" by simp
    then have "parse_value f (json_stringify v @ CHR ''}'' # rest) = Some (v, CHR ''}'' # rest)"
      using Cons.prems(1)[of k v "CHR ''}'' # rest" f] kv by simp
    from parse_member_step[OF this, of acc k] f Nil kv fresh show ?thesis
      by (simp add: set_member_fresh)
  next
    case (Cons kv' kvs')
    let ?more = "join '','' (map member_text kvs) @ CHR ''}'' # rest"
    have j: "join '','' (map member_text (kv # kvs)) =
               member_text (k, v) @ CHR '','' # join '','' (map member_text kvs)"
      using Cons kv by simp
    from Cons.prems(3) f j lv have lf: "length (json_stringify v) < f"
      and lr: "length (join '','' (map member_text kvs)) + 2 \<le> f" by simp_all
    have pv: "parse_value f (json_stringify v @ CHR '','' # ?more) = Some (v, CHR '','' # ?more)"
      using Cons.prems(1)[of k v "CHR '','' # ?more" f] kv lf by simp
    have ih: "parse_members f (acc @ [(k, v)]) ?more = Some (JObject ((acc @ [(k, v)]) @ kvs), rest)"
    proof (rule Cons.IH)
      show "kvs \<noteq> []" using Cons by simp
      show "length (join '','' (map member_text kvs)) + 2 \<le> f" by (rule lr)
      show "distinct (map fst kvs)" using Cons.prems(4) by simp
      show "fst ` set (acc @ [(k, v)]) \<inter> fst ` set kvs = {}"
        using Cons.prems(4,5) kv by auto
    next
      fix k' v' fuel' rest'
      assume "(k', v') \<in> set kvs" "terminated rest'" "length (json_stringify v') < fuel'"
      then show "parse_value fuel' (json_stringify v' @ rest') = Some (v', rest')"
        using Cons.prems(1)[of k' v' rest' fuel'] by simp
    qed
    from parse_member_step[OF pv, of acc k] f j kv fresh ih show ?thesis
      by (simp add: set_member_fresh)
  qed
qed

lemma member_text_start: "\<exists>cs. member_text kv = CHR 0x22 # cs"
  by (simp add: member_text_def quote_def)

lemma join_start:
  "xs \<noteq> [] \<Longrightarrow> \<exists>c cs. f (hd xs) = c # cs \<Longrightarrow> \<exists>cs. join sep (map f xs) = hd (f (hd xs)) # cs"
proof (cases xs)
  case Nil
  assume "xs \<noteq> []"
  with Nil show ?thesis by simp
next
  case (Cons x xs')
  assume "\<exists>c cs. f (hd xs) = c # cs"
  with Cons obtain c cs where "f x = c # cs" by auto
  with Cons show ?thesis by (cases xs') simp_all
qed

lemma parse_value_stringify:
  "in_fragment v \<Longrightarrow> terminated rest \<Longrightarrow> length (json_stringify v) < fuel \<Longrightarrow>
   parse_value fuel (json_stringify v @ rest) = Some (v, rest)"
proof (induction v arbitrary: fuel rest)
  case JNull
  then obtain f where "fuel = Suc f" by (cases fuel) auto
  then show ?case by (simp add: skip_ws_def is_ws_def parse_literal_def)
next
  case (JBool b)
  then obtain f where "fuel = Suc f" by (cases fuel) auto
  then show ?case by (cases b) (simp_all add: skip_ws_def is_ws_def parse_literal_def)
next
  case (JNumber k)
  then obtain f where f: "fuel = Suc f" by (cases fuel) auto
  from show_int_head[of k] obtain c cs where
    s: "show_int k = c # cs" and c: "c = CHR ''-'' \<or> is_digit c" by blast
  from c have d: "c \<noteq> CHR ''n''" "c \<noteq> CHR ''t''" "c \<noteq> CHR ''f''" "c \<noteq> CHR 0x22"
    "c \<noteq> CHR ''[''" "c \<noteq> CHR ''{''"
    by (auto simp: is_digit_def)
  from c have "skip_ws (c # cs @ rest) = c # cs @ rest"
    using digit_or_minus_start[of c] by (simp add: skip_ws_start)
  moreover have "parse_number (c # cs @ rest) = Some (JNumber k, rest)"
    using parse_number_show_int[OF JNumber.prems(2), of k] s by simp
  ultimately show ?case using f s d by simp
next
  case JNaN
  then show ?case by simp
next
  case (JString s)
  then obtain f where "fuel = Suc f" by (cases fuel) auto
  then show ?case by (simp add: quote_def parse_string_quote)
next
  case (JArray xs)
  then obtain f where f: "fuel = Suc f" by (cases fuel) auto
  show ?case
  proof (cases "xs = []")
    case True
    with f show ?thesis by (simp add: skip_ws_def is_ws_def)
  next
    case False
    let ?body = "join '','' (map json_stringify xs)"
    from False stringify_start[of "hd xs"] obtain c cs where
      b: "?body = c # cs" and c: "value_start c"
      using join_start[of xs json_stringify "'',''"] by (metis list.sel(1))
    from JArray.prems(3) f have lf: "length ?body + 2 \<le> f" by simp
    have pe: "parse_elements f [] (?body @ CHR '']'' # rest) = Some (JArray ([] @ xs), rest)"
    proof (rule parse_elements_stringify[OF _ False lf])
      fix x fuel' rest'
      assume x: "x \<in> set xs" and t: "terminated rest'"
        and l: "length (json_stringify x) < fuel'"
      from x JArray.prems(1) have fr: "in_fragment x" by (simp add: list_all_iff)
      from JArray.IH[OF x fr t l]
      show "parse_value fuel' (json_stringify x @ rest') = Some (x, rest')" .
    qed
    from c have "skip_ws (c # cs @ CHR '']'' # rest) = c # cs @ CHR '']'' # rest"
      by (rule skip_ws_start)
    moreover from c have "c \<noteq> CHR '']''" by (simp add: value_start_def)
    ultimately show ?thesis using f b pe by (simp add: skip_ws_def is_ws_def)
  qed
next
  case (JObject kvs)
  then obtain f where f: "fuel = Suc f" by (cases fuel) auto
  show ?case
  proof (cases "kvs = []")
    case True
    with f show ?thesis by (simp add: skip_ws_def is_ws_def)
  next
    case False
    let ?body = "join '','' (map member_text kvs)"
    from False obtain cs where b: "?body = CHR 0x22 # cs"
      using join_start[of kvs member_text "'',''"] member_text_start[of "hd kvs"]
      by (metis list.sel(1))
    from JObject.prems(3) f have lf: "length ?body + 2 \<le> f"
      unfolding stringify_object by simp
    from JObject.prems(1) have dist: "distinct (map fst kvs)" by simp
    have pm: "parse_members f [] (?body @ CHR ''}'' # rest) = Some (JObject ([] @ kvs), rest)"
    proof (rule parse_members_stringify[OF _ False lf dist])
      show "fst ` set [] \<inter> fst ` set kvs = {}" by simp
    next
      fix k v fuel' rest'
      assume kv: "(k, v) \<in> set kvs" and t: "terminated rest'"
        and l: "length (json_stringify v) < fuel'"
      from kv JObject.prems(1) have fr: "in_fragment v" by (auto simp: list_all_iff)
      from kv have "v \<in> Basic_BNFs.snds (k, v)" by simp
      from JObject.IH[OF kv this fr t l]
      show "parse_value fuel' (json_stringify v @ rest') = Some (v, rest')" .
    qed
    from f b pm show ?thesis
      unfolding stringify_object by (simp add: skip_ws_def is_ws_def)
  qed
qed

text \<open>
  On the fragment, \<open>json_parse\<close> gives back every value from the text that
  \<open>json_stringify\<close> writes for it.
\<close>

lemma json_round_trip: "in_fragment v \<Longrightarrow> json_parse (json_stringify v) = Inr v"
  using parse_value_stringify[of v "[]" "Suc (length (json_stringify v))"]
  by (simp add: json_parse_def skip_ws_def)

section \<open>Properties of the response and usage mappers\<close>

lemmas json_eval =
  json_parse_def show_int_def show_nat.simps digit_char_def quote_def escape_char_def
  hex_digit_def hex_value_def skip_ws_def is_ws_def is_digit_def digit_value_def
  parse_digits_def parse_number_def parse_literal_def

lemma to_tool_use_blocks_fails:
  "(i, n, a) \<in> set cs \<Longrightarrow> JSON_parse a = Inl e \<Longrightarrow> \<exists>e'. to_tool_use_blocks JSON_parse cs = Inl e'"
  by (induction cs) (auto split: sum.splits)

lemma function_call_mem:
  "FunctionToolCall i n a \<in> set cs \<Longrightarrow> (i, n, a) \<in> set (List.map_filter function_call cs)"
  by (force simp: List.map_filter_def)

text \<open>
  Claim C8. If a function-kind tool call of the terminal completion carries an argument
  string on which \<^verbatim>\<open>JSON.parse\<close> throws, mapping the completion fails with an error: no
  final message is produced.
\<close>

theorem malformed_arguments_fail:
  assumes "cm_tool_calls message = Some cs"
    and "FunctionToolCall i n a \<in> set cs"
    and "JSON_parse a = Inl e"
  shows "\<exists>e'. mapOaiMessageToMessage JSON_parse message usage = Inl e'"
proof -
  have "(i, n, a) \<in> set (List.map_filter function_call cs)"
    using assms(2) by (rule function_call_mem)
  then have "\<exists>e'. to_tool_use_blocks JSON_parse (List.map_filter function_call cs) = Inl e'"
    using assms(3) by (rule to_tool_use_blocks_fails[where JSON_parse = JSON_parse and a = a and e = e])
  then obtain e' where
    "to_tool_use_blocks JSON_parse (List.map_filter function_call cs) = Inl e'" ..
  with assms(1) show ?thesis by (simp add: mapOaiMessageToMessage_def)
qed

text \<open>
  Claim C8 at a completion whose function call carries the arguments \<^verbatim>\<open>{bad\<close>.
\<close>

theorem malformed_arguments_fail_witness:
  "cm_tool_calls malformed_completion =
     Some [CustomToolCall ''call_c'' ''shell'' ''ls'',
           FunctionToolCall ''call_a'' ''weather'' ''{bad''] \<and>
   json_parse ''{bad'' = Inl SyntaxError \<and>
   mapOaiMessageToMessage json_parse malformed_completion None = Inl SyntaxError"
proof -
  have c: "cm_tool_calls malformed_completion =
     Some [CustomToolCall ''call_c'' ''shell'' ''ls'',
           FunctionToolCall ''call_a'' ''weather'' ''{bad'']"
    by (simp add: malformed_completion_def)
  have m: "FunctionToolCall ''call_a'' ''weather'' ''{bad'' \<in>
     set [CustomToolCall ''call_c'' ''shell'' ''ls'',
          FunctionToolCall ''call_a'' ''weather'' ''{bad'']"
    by simp
  have p: "json_parse ''{bad'' = Inl SyntaxError"
    by (simp add: json_eval)
  from malformed_arguments_fail[where JSON_parse = json_parse and a = "''{bad''" and e = SyntaxError
      and usage = None, OF c m p]
  obtain e' :: json_error where
    "(mapOaiMessageToMessage json_parse malformed_completion None :: json_error + js_value final_message) = Inl e'"
    by blast
  moreover have "e' = SyntaxError" by (cases e') simp
  ultimately show ?thesis using c p by simp
qed

text \<open>
  Claim C5. Whenever the mapping produces a final message, its stop reason is
  \<^verbatim>\<open>tool_use\<close> if the completion's message has at least one tool call and
  \<^verbatim>\<open>end_turn\<close> otherwise.
\<close>

theorem stop_reason_by_tool_calls:
  assumes "mapOaiMessageToMessage JSON_parse message usage = Inr fm"
  shows "fm_stop_reason fm =
    (if (\<exists>c cs. cm_tool_calls message = Some (c # cs)) then StopToolUse else StopEndTurn)"
  using assms
  by (cases "cm_tool_calls message")
     (auto simp: mapOaiMessageToMessage_def neq_Nil_conv split: sum.splits)

text \<open>
  Claim C5 at a completion with one function call.
\<close>

theorem stop_reason_by_tool_calls_witness:
  "mapOaiMessageToMessage json_parse function_completion None =
     Inr \<lparr>fm_role = Assistant,
          fm_content = [TextBlock [], ToolUseBlock ''call_a'' ''weather'' (JObject [])],
          fm_stop_reason = StopToolUse, fm_usage = None\<rparr> \<and>
   fm_stop_reason
     \<lparr>fm_role = Assistant,
      fm_content = [TextBlock [], ToolUseBlock ''call_a'' ''weather'' (JObject [])],
      fm_stop_reason = StopToolUse, fm_usage = None\<rparr> = StopToolUse"
proof -
  have h: "mapOaiMessageToMessage json_parse function_completion None =
     Inr \<lparr>fm_role = Assistant,
          fm_content = [TextBlock [], ToolUseBlock ''call_a'' ''weather'' (JObject [])],
          fm_stop_reason = StopToolUse, fm_usage = None\<rparr>"
    by (simp add: mapOaiMessageToMessage_def function_completion_def json_eval)
  show ?thesis using h stop_reason_by_tool_calls[OF h] by simp
qed

lemma non_function_calls_dropped:
  "\<forall>c\<in>set cs. function_call c = None \<Longrightarrow> List.map_filter function_call cs = []"
  by (induction cs) simp_all

text \<open>
  Claim C10. If the completion's tool calls are all of the non-function kind, and there
  is at least one, the final message has the stop reason \<^verbatim>\<open>tool_use\<close> while its content is
  the text block alone.
\<close>

theorem non_function_calls_stop_reason:
  assumes "cm_tool_calls message = Some cs" and "cs \<noteq> []"
    and "list_all (\<lambda>c. function_call c = None) cs"
  shows "mapOaiMessageToMessage JSON_parse message usage =
    Inr \<lparr>fm_role = cm_role message,
         fm_content = [TextBlock (case cm_content message of None \<Rightarrow> [] | Some t \<Rightarrow> t)],
         fm_stop_reason = StopToolUse,
         fm_usage = map_option mapOaiUsage usage\<rparr>"
  using assms by (simp add: mapOaiMessageToMessage_def non_function_calls_dropped list_all_iff)

text \<open>
  Claim C10 at a completion with one custom tool call.
\<close>

theorem non_function_calls_stop_reason_witness:
  "cm_tool_calls custom_completion = Some [CustomToolCall ''call_c'' ''shell'' ''ls''] \<and>
   list_all (\<lambda>c. function_call c = None) [CustomToolCall ''call_c'' ''shell'' ''ls''] \<and>
   mapOaiMessageToMessage json_parse custom_completion None =
     Inr \<lparr>fm_role = Assistant, fm_content = [TextBlock ''ok''],
          fm_stop_reason = StopToolUse, fm_usage = None\<rparr>"
proof -
  have c: "cm_tool_calls custom_completion = Some [CustomToolCall ''call_c'' ''shell'' ''ls'']"
    by (simp add: custom_completion_def)
  have n: "[CustomToolCall ''call_c'' ''shell'' ''ls''] \<noteq> []" by simp
  have a: "list_all (\<lambda>c. function_call c = None) [CustomToolCall ''call_c'' ''shell'' ''ls'']"
    by simp
  show ?thesis
    using c a non_function_calls_stop_reason[OF c n a, of json_parse None]
    by (simp add: custom_completion_def)
qed

lemma round_trip_blocks:
  "(\<And>i n x. ToolUseBlock i n x \<in> set content \<Longrightarrow> JSON_parse (JSON_stringify x) = Inr x) \<Longrightarrow>
   to_tool_use_blocks JSON_parse
     (List.map_filter function_call (List.map_filter (assistant_tool_call JSON_stringify) content)) =
   Inr (filter is_tool_use_block content)"
proof (induction content)
  case Nil
  then show ?case by simp
next
  case (Cons c content)
  have ih: "to_tool_use_blocks JSON_parse
     (List.map_filter function_call (List.map_filter (assistant_tool_call JSON_stringify) content)) =
   Inr (filter is_tool_use_block content)"
  proof (rule Cons.IH)
    fix i n x
    assume "ToolUseBlock i n x \<in> set content"
    then show "JSON_parse (JSON_stringify x) = Inr x" using Cons.prems[of i n x] by simp
  qed
  show ?case
  proof (cases c)
    case (ToolUseBlock i n x)
    from Cons.prems[of i n x] ToolUseBlock have "JSON_parse (JSON_stringify x) = Inr x" by simp
    with ih ToolUseBlock show ?thesis by simp
  qed (simp_all add: ih)
qed

lemma assistant_tool_calls_empty:
  "List.map_filter (assistant_tool_call JSON_stringify) content = [] \<longleftrightarrow>
   filter is_tool_use_block content = []"
proof (induction content)
  case Nil
  then show ?case by simp
next
  case (Cons c content)
  then show ?case by (cases c) simp_all
qed

text \<open>
  With inputs that \<^verbatim>\<open>JSON.parse\<close> gives back from their \<^verbatim>\<open>JSON.stringify\<close>, the final
  message holds exactly the message's \<^verbatim>\<open>tool_use\<close> blocks.
\<close>

lemma round_trip_exact:
  assumes "list_all (round_trips JSON_parse JSON_stringify) content"
  shows "mapOaiMessageToMessage JSON_parse
           \<lparr>cm_role = Assistant, cm_content = text,
            cm_tool_calls =
              wire_tool_calls
                (formatInputMessage JSON_stringify
                   \<lparr>msg_role = Assistant, msg_content = content\<rparr> fcm)\<rparr> usage =
         Inr \<lparr>fm_role = Assistant,
              fm_content = TextBlock (case text of None \<Rightarrow> [] | Some t \<Rightarrow> t) #
                            filter is_tool_use_block content,
              fm_stop_reason =
                (if filter is_tool_use_block content = [] then StopEndTurn else StopToolUse),
              fm_usage = map_option mapOaiUsage usage\<rparr>"
proof -
  have rt: "JSON_parse (JSON_stringify x) = Inr x" if "ToolUseBlock i n x \<in> set content" for i n x
    using assms that by (auto simp: list_all_iff)
  have blocks: "to_tool_use_blocks JSON_parse
     (List.map_filter function_call (List.map_filter (assistant_tool_call JSON_stringify) content)) =
     Inr (filter is_tool_use_block content)"
    by (rule round_trip_blocks) (rule rt)
  show ?thesis
  proof (cases "filter is_tool_use_block content = []")
    case True
    then have "List.map_filter (assistant_tool_call JSON_stringify) content = []"
      by (simp add: assistant_tool_calls_empty)
    with True show ?thesis
      by (simp add: mapOaiMessageToMessage_def formatInputMessage_def)
  next
    case False
    then have "List.map_filter (assistant_tool_call JSON_stringify) content \<noteq> []"
      by (simp add: assistant_tool_calls_empty)
    with False blocks show ?thesis
      by (simp add: mapOaiMessageToMessage_def formatInputMessage_def)
  qed
qed

text \<open>
  This is the case of every message whose tool inputs are values of the fragment.
\<close>

lemma fragment_inputs_round_trip:
  "list_all fragment_input content \<Longrightarrow>
   list_all (round_trips json_parse json_stringify) content"
proof (induction content)
  case Nil
  then show ?case by simp
next
  case (Cons c content)
  then show ?case by (cases c) (simp_all add: json_round_trip)
qed

lemma round_trip_on_fragment:
  assumes "list_all fragment_input content"
  shows "mapOaiMessageToMessage json_parse
           \<lparr>cm_role = Assistant, cm_content = reply,
            cm_tool_calls =
              wire_tool_calls
                (formatInputMessage json_stringify
                   \<lparr>msg_role = Assistant, msg_content = content\<rparr> fcm)\<rparr> usage =
         Inr \<lparr>fm_role = Assistant,
              fm_content = TextBlock (case reply of None \<Rightarrow> [] | Some t \<Rightarrow> t) #
                            filter is_tool_use_block content,
              fm_stop_reason =
                (if filter is_tool_use_block content = [] then StopEndTurn else StopToolUse),
              fm_usage = map_option mapOaiUsage usage\<rparr>"
  by (rule round_trip_exact) (rule fragment_inputs_round_trip[OF assms])

text \<open>
  Whatever the inputs are, the blocks that come back are the message's \<^verbatim>\<open>tool_use\<close>
  blocks with each input parsed from its own text.
\<close>

lemma reparsed_blocks:
  "to_tool_use_blocks JSON_parse
     (List.map_filter function_call (List.map_filter (assistant_tool_call JSON_stringify) content)) =
   Inr blocks \<Longrightarrow>
   list_all2 (reparsed JSON_parse JSON_stringify) (filter is_tool_use_block content) blocks"
proof (induction content arbitrary: blocks)
  case Nil
  then show ?case by simp
next
  case (Cons c content)
  show ?case
  proof (cases c)
    case (ToolUseBlock i n x)
    with Cons.prems obtain v bs where
      v: "JSON_parse (JSON_stringify x) = Inr v"
      and bs: "to_tool_use_blocks JSON_parse (List.map_filter function_call
                 (List.map_filter (assistant_tool_call JSON_stringify) content)) = Inr bs"
      and b: "blocks = ToolUseBlock i n v # bs"
      by (auto split: sum.splits)
    from Cons.IH[OF bs] v b ToolUseBlock show ?thesis by simp
  qed (use Cons in simp_all)
qed

lemma mapped_back_content:
  assumes "mapOaiMessageToMessage JSON_parse
           \<lparr>cm_role = Assistant, cm_content = text,
            cm_tool_calls =
              wire_tool_calls
                (formatInputMessage JSON_stringify
                   \<lparr>msg_role = Assistant, msg_content = content\<rparr> fcm)\<rparr> usage = Inr fm"
  shows "\<exists>blocks. fm_content fm = TextBlock (case text of None \<Rightarrow> [] | Some t \<Rightarrow> t) # blocks \<and>
           to_tool_use_blocks JSON_parse (List.map_filter function_call
             (List.map_filter (assistant_tool_call JSON_stringify) content)) = Inr blocks"
proof (cases "List.map_filter (assistant_tool_call JSON_stringify) content = []")
  case True
  with assms show ?thesis
    by (auto simp: mapOaiMessageToMessage_def formatInputMessage_def)
next
  case False
  with assms show ?thesis
    by (auto simp: mapOaiMessageToMessage_def formatInputMessage_def split: sum.splits)
qed

text \<open>
  Claim C6 says that the round trip reproduces the parsed inputs, \<^verbatim>\<open>JSON.parse\<close> of
  \<^verbatim>\<open>JSON.stringify\<close> of each input being the original input. An assistant message with
  two \<^verbatim>\<open>tool_use\<close> blocks whose first input holds NaN comes back with null in its place:
  \<^verbatim>\<open>JSON.stringify\<close> writes NaN and null by the same text.
\<close>

theorem round_trip_counterexample:
  "json_stringify (JObject [(''factor'', JNaN)]) = json_stringify (JObject [(''factor'', JNull)]) \<and>
   mapOaiMessageToMessage json_parse
     \<lparr>cm_role = Assistant, cm_content = None,
      cm_tool_calls =
        wire_tool_calls (formatInputMessage json_stringify
          \<lparr>msg_role = Assistant,
           msg_content = [ToolUseBlock ''call_a'' ''scale'' (JObject [(''factor'', JNaN)]),
                          ToolUseBlock ''call_b'' ''pick'' (JArray [])]\<rparr> None)\<rparr> None =
   Inr \<lparr>fm_role = Assistant,
        fm_content = [TextBlock [],
                      ToolUseBlock ''call_a'' ''scale'' (JObject [(''factor'', JNull)]),
                      ToolUseBlock ''call_b'' ''pick'' (JArray [])],
        fm_stop_reason = StopToolUse,
        fm_usage = None\<rparr>"
  by (simp add: mapOaiMessageToMessage_def formatInputMessage_def json_eval)

text \<open>
  Claim C6, as amended. Take an assistant message, format it, and map back a completion
  whose tool calls are the formatted ones (same ids, names and argument strings).
  Whenever the mapping returns a final message, its \<^verbatim>\<open>tool_use\<close> blocks are those of the
  message, in order, with the same ids and names, and each input is what \<^verbatim>\<open>JSON.parse\<close>
  returns on the \<^verbatim>\<open>JSON.stringify\<close> of the original input. If that is the original
  input for every block, the mapping returns, and the final message holds exactly the
  message's \<^verbatim>\<open>tool_use\<close> blocks. A message with two \<^verbatim>\<open>tool_use\<close> blocks is the case of the
  claim.
\<close>

theorem tool_use_round_trip_amended:
  "(list_all (round_trips JSON_parse JSON_stringify) content \<longrightarrow>
      mapOaiMessageToMessage JSON_parse
        \<lparr>cm_role = Assistant, cm_content = text,
         cm_tool_calls =
           wire_tool_calls
             (formatInputMessage JSON_stringify
                \<lparr>msg_role = Assistant, msg_content = content\<rparr> fcm)\<rparr> usage =
      Inr \<lparr>fm_role = Assistant,
           fm_content = TextBlock (case text of None \<Rightarrow> [] | Some t \<Rightarrow> t) #
                         filter is_tool_use_block content,
           fm_stop_reason =
             (if filter is_tool_use_block content = [] then StopEndTurn else StopToolUse),
           fm_usage = map_option mapOaiUsage usage\<rparr>) \<and>
   (\<forall>fm.
      mapOaiMessageToMessage JSON_parse
        \<lparr>cm_role = Assistant, cm_content = text,
         cm_tool_calls =
           wire_tool_calls
             (formatInputMessage JSON_stringify
                \<lparr>msg_role = Assistant, msg_content = content\<rparr> fcm)\<rparr> usage = Inr fm \<longrightarrow>
      (\<exists>blocks.
         fm_content fm = TextBlock (case text of None \<Rightarrow> [] | Some t \<Rightarrow> t) # blocks \<and>
         list_all2 (reparsed JSON_parse JSON_stringify)
           (filter is_tool_use_block content) blocks))"
proof (intro conjI impI allI)
  assume "list_all (round_trips JSON_parse JSON_stringify) content"
  then show "mapOaiMessageToMessage JSON_parse
        \<lparr>cm_role = Assistant, cm_content = text,
         cm_tool_calls =
           wire_tool_calls
             (formatInputMessage JSON_stringify
                \<lparr>msg_role = Assistant, msg_content = content\<rparr> fcm)\<rparr> usage =
      Inr \<lparr>fm_role = Assistant,
           fm_content = TextBlock (case text of None \<Rightarrow> [] | Some t \<Rightarrow> t) #
                         filter is_tool_use_block content,
           fm_stop_reason =
             (if filter is_tool_use_block content = [] then StopEndTurn else StopToolUse),
           fm_usage = map_option mapOaiUsage usage\<rparr>"
    by (rule round_trip_exact)
next
  fix fm
  assume "mapOaiMessageToMessage JSON_parse
        \<lparr>cm_role = Assistant, cm_content = text,
         cm_tool_calls =
           wire_tool_calls
             (formatInputMessage JSON_stringify
                \<lparr>msg_role = Assistant, msg_content = content\<rparr> fcm)\<rparr> usage = Inr fm"
  from mapped_back_content[OF this] obtain blocks where
    c: "fm_content fm = TextBlock (case text of None \<Rightarrow> [] | Some t \<Rightarrow> t) # blocks"
    and b: "to_tool_use_blocks JSON_parse (List.map_filter function_call
             (List.map_filter (assistant_tool_call JSON_stringify) content)) = Inr blocks"
    by blast
  from reparsed_blocks[OF b] c
  show "\<exists>blocks.
         fm_content fm = TextBlock (case text of None \<Rightarrow> [] | Some t \<Rightarrow> t) # blocks \<and>
         list_all2 (reparsed JSON_parse JSON_stringify)
           (filter is_tool_use_block content) blocks"
    by blast
qed

lemma example_inputs_round_trip:
  "json_parse (json_stringify example_input_1) = Inr example_input_1"
  "json_parse (json_stringify example_input_2) = Inr example_input_2"
  by (simp_all add: example_input_1_def example_input_2_def json_eval)

text \<open>
  The amended claim at an assistant message with a text block and two \<^verbatim>\<open>tool_use\<close>
  blocks whose inputs the round trip gives back.
\<close>

theorem tool_use_round_trip_amended_witness:
  "list_all (round_trips json_parse json_stringify) example_assistant_content \<and>
   formatInputMessage json_stringify
     \<lparr>msg_role = Assistant, msg_content = example_assistant_content\<rparr> None =
   One (RoleMessageParam Assistant [TextPart ''calling'']
     (Some [FunctionToolCall ''call_a'' ''weather'' (json_stringify example_input_1),
            FunctionToolCall ''call_b'' ''pick'' (json_stringify example_input_2)])) \<and>
   mapOaiMessageToMessage json_parse
     \<lparr>cm_role = Assistant, cm_content = None,
      cm_tool_calls =
        wire_tool_calls (formatInputMessage json_stringify
          \<lparr>msg_role = Assistant, msg_content = example_assistant_content\<rparr> None)\<rparr> None =
   Inr \<lparr>fm_role = Assistant,
        fm_content = [TextBlock [],
                      ToolUseBlock ''call_a'' ''weather'' example_input_1,
                      ToolUseBlock ''call_b'' ''pick'' example_input_2],
        fm_stop_reason = StopToolUse,
        fm_usage = None\<rparr>"
proof -
  have h: "list_all (round_trips json_parse json_stringify) example_assistant_content"
    by (simp add: example_assistant_content_def example_inputs_round_trip)
  have f: "formatInputMessage json_stringify
     \<lparr>msg_role = Assistant, msg_content = example_assistant_content\<rparr> None =
   One (RoleMessageParam Assistant [TextPart ''calling'']
     (Some [FunctionToolCall ''call_a'' ''weather'' (json_stringify example_input_1),
            FunctionToolCall ''call_b'' ''pick'' (json_stringify example_input_2)]))"
    by (simp add: formatInputMessage_def example_assistant_content_def)
  from tool_use_round_trip_amended[of json_parse json_stringify example_assistant_content
      None None None, THEN conjunct1] h
  have "mapOaiMessageToMessage json_parse
     \<lparr>cm_role = Assistant, cm_content = None,
      cm_tool_calls =
        wire_tool_calls (formatInputMessage json_stringify
          \<lparr>msg_role = Assistant, msg_content = example_assistant_content\<rparr> None)\<rparr> None =
      Inr \<lparr>fm_role = Assistant,
           fm_content = TextBlock (case None of None \<Rightarrow> [] | Some t \<Rightarrow> t) #
                         filter is_tool_use_block example_assistant_content,
           fm_stop_reason =
             (if filter is_tool_use_block example_assistant_content = []
              then StopEndTurn else StopToolUse),
           fm_usage = map_option mapOaiUsage None\<rparr>"
    by (rule mp)
  then have m: "mapOaiMessageToMessage json_parse
     \<lparr>cm_role = Assistant, cm_content = None,
      cm_tool_calls =
        wire_tool_calls (formatInputMessage json_stringify
          \<lparr>msg_role = Assistant, msg_content = example_assistant_content\<rparr> None)\<rparr> None =
   Inr \<lparr>fm_role = Assistant,
        fm_content = [TextBlock [],
                      ToolUseBlock ''call_a'' ''weather'' example_input_1,
                      ToolUseBlock ''call_b'' ''pick'' example_input_2],
        fm_stop_reason = StopToolUse,
        fm_usage = None\<rparr>"
    by (simp add: example_assistant_content_def)
  from h f m show ?thesis by (intro conjI)
qed

text \<open>
  Claim C9. The mapped usage has the prompt total as input total and the completion
  total as output total; \<open>cacheRead\<close> and \<open>thinking\<close> are undefined exactly when the
  detail record or its field is missing, and a reported zero is mapped to zero.
\<close>

theorem usage_mapping:
  "input_total (usage_input (mapOaiUsage usage)) = prompt_tokens usage \<and>
   output_total (usage_output (mapOaiUsage usage)) = completion_tokens usage \<and>
   (cacheRead (usage_input (mapOaiUsage usage)) = None \<longleftrightarrow>
      (prompt_details usage = None \<or>
       (\<exists>d. prompt_details usage = Some d \<and> cached_tokens d = None))) \<and>
   (thinking (usage_output (mapOaiUsage usage)) = None \<longleftrightarrow>
      (completion_details usage = None \<or>
       (\<exists>d. completion_details usage = Some d \<and> reasoning_tokens d = None))) \<and>
   cacheRead (usage_input (mapOaiUsage
      (usage\<lparr>prompt_details := Some \<lparr>cached_tokens = Some 0\<rparr>\<rparr>))) = Some 0 \<and>
   thinking (usage_output (mapOaiUsage
      (usage\<lparr>completion_details := Some \<lparr>reasoning_tokens = Some 0\<rparr>\<rparr>))) = Some 0"
  by (auto simp: mapOaiUsage_def split: option.splits)

end
